theory Spec2Isabelle
  imports Main
begin

section \<open>Data model of the backend (nsp-intents.go, mux.go)\<close>

text \<open>
  A Go \<^verbatim>\<open>error\<close> value of a collaborator is kept by its message. Go's \<^verbatim>\<open>int\<close> is
  modelled as \<^typ>\<open>int\<close>. The arithmetic of the modelled code is \<^verbatim>\<open>pageNumber+1\<close>, once
  per nested call, and the sleep duration \<^verbatim>\<open>time.Second * time.Duration(tokenExpiresIn-10)\<close>.
  A page number cannot come near the 64-bit range: a run of that depth has exhausted the
  goroutine's stack long before. The sleep duration can leave it, and is computed with the
  wrap-around of \<^verbatim>\<open>int64\<close> written out.
\<close>

type_synonym goerror = string

record IbnInput =
  PageNumber :: int
  PageSize :: int

record IntentType =
  Name :: string
  Version :: int

text \<open>The \<^verbatim>\<open>Output\<close> struct of \<^verbatim>\<open>IntentTypeList\<close> (page-size, total-count, intent-type).\<close>

record IntentTypeList =
  Output_PageSize :: int
  Output_TotalCount :: int
  Output_IntentType :: "IntentType list"

record IntentTypeYangModule =
  Module_Name :: string
  YangContent :: string

text \<open>
  An HTTP response: its status code, and its body given by what
  \<^verbatim>\<open>json.NewDecoder(resp.Body).Decode\<close> yields for each of the two target types
  (\<open>None\<close> when the decoder returns an error).
\<close>

record http_response =
  StatusCode :: int
  Body_IntentTypeList :: "IntentTypeList option"
  Body_IntentTypeDefinition :: "IntentTypeYangModule list option"

text \<open>
  \<^verbatim>\<open>s.nsp\<close>: the credentials and the unexported token. The struct declarations are not
  in the modelled files; the fields are those the handlers read and write, with
  \<^verbatim>\<open>ExpiresIn\<close> taken to be an \<^verbatim>\<open>int\<close> number of seconds.
\<close>

record Token =
  AccessToken :: string
  ExpiresIn :: int

record NspAccess =
  Ip :: string
  User :: string
  Pass :: string
  token :: Token

text \<open>The request body handed to \<^verbatim>\<open>makeHTTPRequest\<close>: \<^verbatim>\<open>nil\<close> or the marshalled search payload.\<close>

datatype reqbody = NoBody | SearchPayload IbnInput

text \<open>
  What the code does to the outside, in order: a call of \<^verbatim>\<open>s.makeHTTPRequest\<close> with its
  method, URL and body, a call of \<^verbatim>\<open>s.getToken\<close> or \<^verbatim>\<open>s.revokeToken\<close>, and a
  \<^verbatim>\<open>time.Sleep\<close> with its duration in nanoseconds. Logger output is not recorded.
\<close>

datatype event =
  HTTPRequest string string reqbody
  | GetTokenCall
  | RevokeTokenCall
  | Sleep int

text \<open>
  The program counter of one \<^verbatim>\<open>tokenRefreshRoutine\<close> goroutine: at the head of its
  \<^verbatim>\<open>for\<close> loop, inside \<^verbatim>\<open>time.Sleep\<close> (with the nanoseconds asked for), or returned.
\<close>

datatype routine = AtLoopHead | Sleeping int | Returned

text \<open>
  The server value \<^verbatim>\<open>s\<close> together with its surroundings: \<^verbatim>\<open>s.nsp\<close>, the trace of
  outside calls made so far, the goroutines started by \<^verbatim>\<open>go s.tokenRefreshRoutine()\<close>, and
  the state of the remote platform.
\<close>

record 'w srv =
  nsp :: NspAccess
  trace :: "event list"
  routines :: "routine list"
  remote :: 'w

text \<open>
  The three methods of \<^verbatim>\<open>srv\<close> that the modelled files call and do not define are
  parameters: each reads \<^verbatim>\<open>s.nsp\<close> and the remote platform; \<^verbatim>\<open>getToken\<close> and
  \<^verbatim>\<open>revokeToken\<close> may also write \<^verbatim>\<open>s.nsp\<close>.
\<close>

record 'w collab =
  makeHTTPRequest_impl ::
    "string \<Rightarrow> string \<Rightarrow> reqbody \<Rightarrow> NspAccess \<Rightarrow> 'w \<Rightarrow> (goerror + http_response) \<times> 'w"
  getToken_impl :: "NspAccess \<Rightarrow> 'w \<Rightarrow> goerror option \<times> NspAccess \<times> 'w"
  revokeToken_impl :: "NspAccess \<Rightarrow> 'w \<Rightarrow> goerror option \<times> NspAccess \<times> 'w"

definition makeHTTPRequest ::
  "'w collab \<Rightarrow> string \<Rightarrow> string \<Rightarrow> reqbody \<Rightarrow> 'w srv \<Rightarrow> (goerror + http_response) \<times> 'w srv" where
  "makeHTTPRequest c method url body s =
     (case makeHTTPRequest_impl c method url body (nsp s) (remote s) of
        (r, w) \<Rightarrow> (r, s\<lparr>trace := trace s @ [HTTPRequest method url body], remote := w\<rparr>))"

definition getToken :: "'w collab \<Rightarrow> 'w srv \<Rightarrow> goerror option \<times> 'w srv" where
  "getToken c s =
     (case getToken_impl c (nsp s) (remote s) of
        (e, n, w) \<Rightarrow> (e, s\<lparr>nsp := n, trace := trace s @ [GetTokenCall], remote := w\<rparr>))"

definition revokeToken :: "'w collab \<Rightarrow> 'w srv \<Rightarrow> goerror option \<times> 'w srv" where
  "revokeToken c s =
     (case revokeToken_impl c (nsp s) (remote s) of
        (e, n, w) \<Rightarrow> (e, s\<lparr>nsp := n, trace := trace s @ [RevokeTokenCall], remote := w\<rparr>))"

section \<open>Arithmetic of \<^verbatim>\<open>int64\<close> and \<^verbatim>\<open>time.Duration\<close>\<close>

text \<open>
  The value an \<^verbatim>\<open>int64\<close> operation yields for the exact result \<open>x\<close>: \<open>x\<close> wrapped into
  the range from -9223372036854775808 to 9223372036854775807.
\<close>

definition int64 :: "int \<Rightarrow> int" where
  "int64 x = (x + 9223372036854775808) mod 18446744073709551616 - 9223372036854775808"

text \<open>
  \<^verbatim>\<open>time.Second * time.Duration(tokenExpiresIn-10)\<close>: a \<^verbatim>\<open>time.Duration\<close> is an
  \<^verbatim>\<open>int64\<close> count of nanoseconds and \<^verbatim>\<open>time.Second\<close> is 1000000000 of them; both the
  subtraction and the product wrap.
\<close>

definition sleep_duration :: "int \<Rightarrow> int" where
  "sleep_duration tokenExpiresIn = int64 (1000000000 * int64 (tokenExpiresIn - 10))"

section \<open>Formatting and string helpers of the Go library\<close>

text \<open>\<^verbatim>\<open>%d\<close> of \<^verbatim>\<open>fmt.Sprintf\<close>: decimal digits, with a leading minus sign below zero.\<close>

definition digit_char :: "nat \<Rightarrow> char" where
  "digit_char d = ''0123456789'' ! d"

fun dec_nat :: "nat \<Rightarrow> string" where
  "dec_nat n = (if n < 10 then [digit_char n] else dec_nat (n div 10) @ [digit_char (n mod 10)])"

definition fmt_d :: "int \<Rightarrow> string" where
  "fmt_d i = (if i < 0 then CHR ''-'' # dec_nat (nat (- i)) else dec_nat (nat i))"

text \<open>
  \<^verbatim>\<open>strings.LastIndex(s, substr)\<close>: the greatest index at which \<open>substr\<close> starts in
  \<open>s\<close>, or \<open>-1\<close>; the scan runs from the last possible position down to 0.
\<close>

fun LastIndex_scan :: "string \<Rightarrow> string \<Rightarrow> nat \<Rightarrow> int" where
  "LastIndex_scan s substr 0 = (if take (length substr) s = substr then 0 else - 1)"
| "LastIndex_scan s substr (Suc i) =
     (if take (length substr) (drop (Suc i) s) = substr then int (Suc i)
      else LastIndex_scan s substr i)"

definition LastIndex :: "string \<Rightarrow> string \<Rightarrow> int" where
  "LastIndex s substr =
     (if length s < length substr then - 1
      else LastIndex_scan s substr (length s - length substr))"

text \<open>
  \<^verbatim>\<open>url.QueryEscape\<close>: letters, digits and \<^verbatim>\<open>-_.~\<close> stay, a space becomes \<^verbatim>\<open>+\<close>,
  every other byte becomes \<^verbatim>\<open>%XX\<close> in upper-case hexadecimal.
\<close>

definition unreserved :: "char \<Rightarrow> bool" where
  "unreserved ch =
     (let n = of_char ch :: nat in
      (97 \<le> n \<and> n \<le> 122) \<or> (65 \<le> n \<and> n \<le> 90) \<or> (48 \<le> n \<and> n \<le> 57)
      \<or> ch = CHR ''-'' \<or> ch = CHR ''_'' \<or> ch = CHR ''.'' \<or> ch = CHR ''~'')"

definition upperhex :: "nat \<Rightarrow> char" where
  "upperhex d = ''0123456789ABCDEF'' ! d"

fun QueryEscape :: "string \<Rightarrow> string" where
  "QueryEscape [] = []"
| "QueryEscape (ch # rest) =
     (if unreserved ch then ch # QueryEscape rest
      else if ch = CHR '' '' then CHR ''+'' # QueryEscape rest
      else CHR ''%'' # upperhex (of_char ch div 16) # upperhex (of_char ch mod 16) # QueryEscape rest)"

section \<open>nsp-intents.go\<close>

text \<open>
  The errors the two functions build with \<^verbatim>\<open>fmt.Errorf\<close>, one constructor per format
  string, with the value each one embeds. (\<^verbatim>\<open>json.Marshal\<close> of two integers cannot
  fail, so the payload error of \<^verbatim>\<open>intentTypeSearch\<close> has no constructor.)
\<close>

datatype error =
  FetchingIntentTypes goerror
  | FetchingIntentTypesStatus int
  | DecodingIntentTypeSearchResponse
  | FetchingPaginatedIntentTypes error
  | InvalidIntentTypeFormat string
  | FetchingYangModules goerror
  | FetchingYangModulesStatus int
  | DecodingYangModulesResponse

text \<open>\<^verbatim>\<open>fmt.Sprintf("%s_%d", intentType.Name, intentType.Version)\<close>\<close>

definition intentTypeKey :: "IntentType \<Rightarrow> string" where
  "intentTypeKey it = Name it @ ''_'' @ fmt_d (Version it)"

definition searchUrl :: "string \<Rightarrow> string" where
  "searchUrl ip =
     ''https://'' @ ip @ ''/restconf/operations/ibn-administration:search-intent-types''"

text \<open>
  \<^verbatim>\<open>intentTypeSearch\<close> calls itself for the next page with nothing that bounds the
  depth, so it is a partial function: \<open>None\<close> is the run that never returns (in Go it
  goes on until the runtime stops the program for its stack). The deferred
  \<^verbatim>\<open>resp.Body.Close()\<close> has no part in the result and is left out.
\<close>

partial_function (option) intentTypeSearch ::
  "'w collab \<Rightarrow> int \<Rightarrow> int \<Rightarrow> 'w srv \<Rightarrow> ((error + string list) \<times> 'w srv) option" where
  "intentTypeSearch c pageNumber pageSize s =
     (case makeHTTPRequest c ''POST'' (searchUrl (Ip (nsp s)))
             (SearchPayload \<lparr>PageNumber = pageNumber, PageSize = pageSize\<rparr>) s of
        (Inl err, s1) \<Rightarrow> Some (Inl (FetchingIntentTypes err), s1)
      | (Inr resp, s1) \<Rightarrow>
          if StatusCode resp \<noteq> 200 then Some (Inl (FetchingIntentTypesStatus (StatusCode resp)), s1)
          else
            (case Body_IntentTypeList resp of
               None \<Rightarrow> Some (Inl DecodingIntentTypeSearchResponse, s1)
             | Some intentTypeList \<Rightarrow>
                 let intentTypes = map intentTypeKey (Output_IntentType intentTypeList) in
                 if Output_PageSize intentTypeList = pageSize
                    \<and> Output_TotalCount intentTypeList > pageSize
                 then
                   Option.bind (intentTypeSearch c (pageNumber + 1) pageSize s1)
                     (\<lambda>r. case r of
                        (Inl err, s2) \<Rightarrow> Some (Inl (FetchingPaginatedIntentTypes err), s2)
                      | (Inr nextPage, s2) \<Rightarrow> Some (Inr (intentTypes @ nextPage), s2))
                 else Some (Inr intentTypes, s1)))"

text \<open>Lines 93 to 99 of \<^verbatim>\<open>intentTypeYangModules\<close>: the split of the key at its last underscore.\<close>

definition splitIntentType :: "string \<Rightarrow> error + string \<times> string" where
  "splitIntentType intentType =
     (let lastInd = LastIndex intentType ''_'' in
      if lastInd = - 1 then Inl (InvalidIntentTypeFormat intentType)
      else Inr (take (nat lastInd) intentType, drop (nat (lastInd + 1)) intentType))"

definition yangModulesUrl :: "string \<Rightarrow> string \<Rightarrow> string \<Rightarrow> string" where
  "yangModulesUrl ip name version =
     ''https://'' @ ip
     @ ''/restconf/data/ibn-administration:ibn-administration/intent-type-catalog/intent-type=''
     @ QueryEscape name @ '','' @ version"

definition intentTypeYangModules ::
  "'w collab \<Rightarrow> string \<Rightarrow> 'w srv \<Rightarrow> (error + IntentTypeYangModule list) \<times> 'w srv" where
  "intentTypeYangModules c intentType s =
     (case splitIntentType intentType of
        Inl err \<Rightarrow> (Inl err, s)
      | Inr (name, version) \<Rightarrow>
          (case makeHTTPRequest c ''GET'' (yangModulesUrl (Ip (nsp s)) name version) NoBody s of
             (Inl err, s1) \<Rightarrow> (Inl (FetchingYangModules err), s1)
           | (Inr resp, s1) \<Rightarrow>
               if StatusCode resp \<noteq> 200 then (Inl (FetchingYangModulesStatus (StatusCode resp)), s1)
               else
                 (case Body_IntentTypeDefinition resp of
                    None \<Rightarrow> (Inl DecodingYangModulesResponse, s1)
                  | Some modules \<Rightarrow> (Inr modules, s1))))"

section \<open>mux.go: the NSP session handlers\<close>

text \<open>
  What a handler writes to its \<^verbatim>\<open>http.ResponseWriter\<close>: a 200 with a plain-text or JSON
  body, or \<^verbatim>\<open>http.Error\<close> with status 500.
\<close>

datatype response =
  OK string
  | InternalServerError string
  | OK_NspAccessExport string string

definition writeResponse :: "string \<Rightarrow> string \<Rightarrow> response" where
  "writeResponse status msg =
     (if status = ''error'' \<and> msg \<noteq> [] then InternalServerError msg
      else if status = ''success'' then OK msg
      else InternalServerError ''unknown error'')"

definition raiseError :: "string \<Rightarrow> goerror option \<Rightarrow> response" where
  "raiseError msg err =
     (case err of
        Some e \<Rightarrow> writeResponse ''error'' (msg @ '' / '' @ e)
      | None \<Rightarrow> writeResponse ''error'' msg)"

text \<open>
  The body of a connect request, by what \<^verbatim>\<open>json.NewDecoder(r.Body).Decode(&s.nsp)\<close> does
  with it: the error it returns, if any, and the value it stores in each exported field of
  \<^verbatim>\<open>s.nsp\<close>. The decoder writes only the fields the body names (\<open>None\<close>: the field keeps
  its value), and never the unexported \<^verbatim>\<open>token\<close>.
\<close>

record connect_request =
  decode_error :: "goerror option"
  body_Ip :: "string option"
  body_User :: "string option"
  body_Pass :: "string option"

definition Decode :: "connect_request \<Rightarrow> NspAccess \<Rightarrow> NspAccess" where
  "Decode r n =
     n\<lparr>Ip := (case body_Ip r of None \<Rightarrow> Ip n | Some v \<Rightarrow> v),
       User := (case body_User r of None \<Rightarrow> User n | Some v \<Rightarrow> v),
       Pass := (case body_Pass r of None \<Rightarrow> Pass n | Some v \<Rightarrow> v)\<rparr>"

text \<open>
  \<^verbatim>\<open>nspConnect\<close>. The statement \<^verbatim>\<open>go s.tokenRefreshRoutine()\<close> adds a goroutine at the
  head of its loop.
\<close>

definition nspConnect :: "'w collab \<Rightarrow> connect_request \<Rightarrow> 'w srv \<Rightarrow> response \<times> 'w srv" where
  "nspConnect c r s =
     (let s0 = s\<lparr>nsp := Decode r (nsp s)\<rparr> in
      case decode_error r of
        Some err \<Rightarrow> (raiseError ''decoding NSP connect request failed'' (Some err), s0)
      | None \<Rightarrow>
          if Ip (nsp s0) = [] \<or> User (nsp s0) = [] \<or> Pass (nsp s0) = []
          then (raiseError ''NSP credentials are missing'' None, s0)
          else
            (case getToken c s0 of
               (Some err, s1) \<Rightarrow> (raiseError ''error making NSP connection'' (Some err), s1)
             | (None, s1) \<Rightarrow>
                 (writeResponse ''success'' ''NSP connected'',
                  s1\<lparr>routines := routines s1 @ [AtLoopHead]\<rparr>)))"

text \<open>
  \<^verbatim>\<open>tokenRefreshRoutine\<close>, one move of a goroutine at a time, so that other handlers and
  goroutines can run while it sleeps. From the head of the loop it reads
  \<^verbatim>\<open>s.nsp.token.ExpiresIn\<close> and returns if that is 0, else enters
  \<^verbatim>\<open>time.Sleep(time.Second * time.Duration(tokenExpiresIn-10))\<close>; when the sleep ends it
  calls \<^verbatim>\<open>revokeToken\<close>, then \<^verbatim>\<open>getToken\<close>, returns at the first error, and is back
  at the head of the loop otherwise. The mutex is not modelled: a move runs to its end
  before any other move or handler.
\<close>

definition tokenRefreshRoutine_step :: "'w collab \<Rightarrow> routine \<Rightarrow> 'w srv \<Rightarrow> routine \<times> 'w srv" where
  "tokenRefreshRoutine_step c pc s =
     (case pc of
        AtLoopHead \<Rightarrow>
          (let tokenExpiresIn = ExpiresIn (token (nsp s)) in
           if tokenExpiresIn = 0 then (Returned, s)
           else (Sleeping (sleep_duration tokenExpiresIn),
                 s\<lparr>trace := trace s @ [Sleep (sleep_duration tokenExpiresIn)]\<rparr>))
      | Sleeping d \<Rightarrow>
          (case revokeToken c s of
             (Some err, s1) \<Rightarrow> (Returned, s1)
           | (None, s1) \<Rightarrow>
               (case getToken c s1 of
                  (Some err, s2) \<Rightarrow> (Returned, s2)
                | (None, s2) \<Rightarrow> (AtLoopHead, s2)))
      | Returned \<Rightarrow> (Returned, s))"

text \<open>
  The routine run on its own from a program counter until it returns. The loop has no
  bound, so the run is a partial function: \<open>None\<close> is the routine that renews for ever.
\<close>

partial_function (option) tokenRefreshRoutine_from ::
  "'w collab \<Rightarrow> routine \<Rightarrow> 'w srv \<Rightarrow> 'w srv option" where
  "tokenRefreshRoutine_from c pc s =
     (if pc = Returned then Some s
      else (case tokenRefreshRoutine_step c pc s of
              (pc', s') \<Rightarrow> tokenRefreshRoutine_from c pc' s'))"

definition tokenRefreshRoutine :: "'w collab \<Rightarrow> 'w srv \<Rightarrow> 'w srv option" where
  "tokenRefreshRoutine c s = tokenRefreshRoutine_from c AtLoopHead s"

text \<open>The scheduler lets goroutine \<open>i\<close> make its next move.\<close>

definition run_routine :: "'w collab \<Rightarrow> nat \<Rightarrow> 'w srv \<Rightarrow> 'w srv" where
  "run_routine c i s =
     (if i < length (routines s)
      then (case tokenRefreshRoutine_step c (routines s ! i) s of
              (pc', s') \<Rightarrow> s'\<lparr>routines := (routines s')[i := pc']\<rparr>)
      else s)"

text \<open>The goroutines that have been started and have not returned.\<close>

definition live_routines :: "'w srv \<Rightarrow> nat" where
  "live_routines s = length (filter (\<lambda>pc. pc \<noteq> Returned) (routines s))"


definition nspIsConnected :: "'w srv \<Rightarrow> response" where
  "nspIsConnected s =
     (if AccessToken (token (nsp s)) = [] then raiseError ''NSP is not connected'' None
      else OK_NspAccessExport (Ip (nsp s)) (User (nsp s)))"

text \<open>A run of connect requests, one after the other, with the response to each.\<close>

fun nspConnect_all :: "'w collab \<Rightarrow> connect_request list \<Rightarrow> 'w srv \<Rightarrow> response list \<times> 'w srv" where
  "nspConnect_all c [] s = ([], s)"
| "nspConnect_all c (r # rs) s =
     (case nspConnect c r s of
        (resp, s1) \<Rightarrow> (case nspConnect_all c rs s1 of (resps, s2) \<Rightarrow> (resp # resps, s2)))"

section \<open>Notions used to state the properties\<close>

text \<open>The request \<^verbatim>\<open>intentTypeSearch\<close> sends for one page, and the fetch of that page.\<close>

definition page_request :: "int \<Rightarrow> int \<Rightarrow> 'w srv \<Rightarrow> event" where
  "page_request pageNumber pageSize s =
     HTTPRequest ''POST'' (searchUrl (Ip (nsp s)))
       (SearchPayload \<lparr>PageNumber = pageNumber, PageSize = pageSize\<rparr>)"

definition fetch_page :: "'w collab \<Rightarrow> int \<Rightarrow> int \<Rightarrow> 'w srv \<Rightarrow> (goerror + http_response) \<times> 'w srv" where
  "fetch_page c pageNumber pageSize s =
     makeHTTPRequest c ''POST'' (searchUrl (Ip (nsp s)))
       (SearchPayload \<lparr>PageNumber = pageNumber, PageSize = pageSize\<rparr>) s"

text \<open>
  The test of line 80 on a decoded page, and the answers after which
  \<^verbatim>\<open>intentTypeSearch\<close> asks for no further page: a transport error, a status other than
  200, a body that does not decode, or a page that fails the test of line 80.
\<close>

definition fetches_next :: "int \<Rightarrow> IntentTypeList \<Rightarrow> bool" where
  "fetches_next pageSize l = (Output_PageSize l = pageSize \<and> Output_TotalCount l > pageSize)"

definition ends_paging :: "int \<Rightarrow> goerror + http_response \<Rightarrow> bool" where
  "ends_paging pageSize r =
     (case r of
        Inl err \<Rightarrow> True
      | Inr resp \<Rightarrow>
          (if StatusCode resp = 200
           then (case Body_IntentTypeList resp of
                   None \<Rightarrow> True
                 | Some l \<Rightarrow> \<not> fetches_next pageSize l)
           else True))"

text \<open>One of the answers to the pages \<open>pageNumber, \<dots>, pageNumber + k\<close> ends the paging.\<close>

fun ends_within :: "nat \<Rightarrow> 'w collab \<Rightarrow> int \<Rightarrow> int \<Rightarrow> 'w srv \<Rightarrow> bool" where
  "ends_within 0 c pageNumber pageSize s = ends_paging pageSize (fst (fetch_page c pageNumber pageSize s))"
| "ends_within (Suc k) c pageNumber pageSize s =
     (if ends_paging pageSize (fst (fetch_page c pageNumber pageSize s)) then True
      else ends_within k c (pageNumber + 1) pageSize (snd (fetch_page c pageNumber pageSize s)))"

text \<open>
  The rule of the specification for going on to the next page, in its own words: the
  reported page-size equals the requested size and the running total fetched is still less
  than total-count.
\<close>

definition spec_fetches_next :: "int \<Rightarrow> nat \<Rightarrow> IntentTypeList \<Rightarrow> bool" where
  "spec_fetches_next pageSize fetched l =
     (Output_PageSize l = pageSize \<and> int fetched < Output_TotalCount l)"

text \<open>The credentials \<^verbatim>\<open>nspConnect\<close> validates, with an empty field.\<close>

definition missing_credentials :: "NspAccess \<Rightarrow> bool" where
  "missing_credentials n = (Ip n = [] \<or> User n = [] \<or> Pass n = [])"

section \<open>A remote platform to run the code against\<close>

text \<open>
  A platform that holds a fixed catalog \<open>ds\<close> and serves it in order: page \<open>k\<close> of size
  \<open>P\<close> is the elements \<open>k * P, \<dots>, k * P + P - 1\<close> that exist, reported with
  page-size the number of pairs on the page and total-count the size of the catalog. It has
  no module endpoint (404), grants every token request a token of 3600 seconds, and refuses
  every revoke without touching \<^verbatim>\<open>s.nsp\<close>.
\<close>

definition page_of :: "IntentType list \<Rightarrow> IbnInput \<Rightarrow> IntentType list" where
  "page_of ds inp = take (nat (PageSize inp)) (drop (nat (PageNumber inp) * nat (PageSize inp)) ds)"

definition catalog_response :: "IntentType list \<Rightarrow> IbnInput \<Rightarrow> http_response" where
  "catalog_response ds inp =
     \<lparr>StatusCode = 200,
      Body_IntentTypeList =
        Some \<lparr>Output_PageSize = int (length (page_of ds inp)),
              Output_TotalCount = int (length ds),
              Output_IntentType = page_of ds inp\<rparr>,
      Body_IntentTypeDefinition = None\<rparr>"

definition catalog_platform :: "IntentType list \<Rightarrow> unit collab" where
  "catalog_platform ds =
     \<lparr>makeHTTPRequest_impl =
        (\<lambda>method url body n w.
           case body of
             SearchPayload inp \<Rightarrow> (Inr (catalog_response ds inp), w)
           | NoBody \<Rightarrow>
               (Inr \<lparr>StatusCode = 404, Body_IntentTypeList = None,
                     Body_IntentTypeDefinition = None\<rparr>, w)),
      getToken_impl =
        (\<lambda>n w. (None, n\<lparr>token := \<lparr>AccessToken = ''token'', ExpiresIn = 3600\<rparr>\<rparr>, w)),
      revokeToken_impl = (\<lambda>n w. (Some ''connection refused'', n, w))\<rparr>"

text \<open>
  A platform that holds and serves the catalog in the same pages, and reports the
  requested page size as page-size on every page, however many pairs the page has.
\<close>

definition echo_platform :: "IntentType list \<Rightarrow> unit collab" where
  "echo_platform ds =
     \<lparr>makeHTTPRequest_impl =
        (\<lambda>method url body n w.
           case body of
             SearchPayload inp \<Rightarrow>
               (Inr \<lparr>StatusCode = 200,
                     Body_IntentTypeList =
                       Some \<lparr>Output_PageSize = PageSize inp,
                             Output_TotalCount = int (length ds),
                             Output_IntentType = page_of ds inp\<rparr>,
                     Body_IntentTypeDefinition = None\<rparr>, w)
           | NoBody \<Rightarrow>
               (Inr \<lparr>StatusCode = 404, Body_IntentTypeList = None,
                     Body_IntentTypeDefinition = None\<rparr>, w)),
      getToken_impl =
        (\<lambda>n w. (None, n\<lparr>token := \<lparr>AccessToken = ''token'', ExpiresIn = 3600\<rparr>\<rparr>, w)),
      revokeToken_impl = (\<lambda>n w. (Some ''connection refused'', n, w))\<rparr>"

text \<open>
  A platform that misreports: to every search request it answers an empty page, with the
  requested size as page-size and one more as total-count.
\<close>

definition endless_platform :: "unit collab" where
  "endless_platform =
     \<lparr>makeHTTPRequest_impl =
        (\<lambda>method url body n w.
           case body of
             SearchPayload inp \<Rightarrow>
               (Inr \<lparr>StatusCode = 200,
                     Body_IntentTypeList =
                       Some \<lparr>Output_PageSize = PageSize inp,
                             Output_TotalCount = PageSize inp + 1,
                             Output_IntentType = []\<rparr>,
                     Body_IntentTypeDefinition = None\<rparr>, w)
           | NoBody \<Rightarrow> (Inl ''connection refused'', w)),
      getToken_impl = (\<lambda>n w. (Some ''connection refused'', n, w)),
      revokeToken_impl = (\<lambda>n w. (Some ''connection refused'', n, w))\<rparr>"

text \<open>A platform that cannot be reached: every call fails.\<close>

definition unreachable_platform :: "unit collab" where
  "unreachable_platform =
     \<lparr>makeHTTPRequest_impl = (\<lambda>method url body n w. (Inl ''connection refused'', w)),
      getToken_impl = (\<lambda>n w. (Some ''connection refused'', n, w)),
      revokeToken_impl = (\<lambda>n w. (Some ''connection refused'', n, w))\<rparr>"

text \<open>The zero value of \<^verbatim>\<open>srv\<close> (never connected), and a session with a token of a given ttl.\<close>

definition no_session :: "unit srv" where
  "no_session =
     \<lparr>nsp = \<lparr>Ip = [], User = [], Pass = [], token = \<lparr>AccessToken = [], ExpiresIn = 0\<rparr>\<rparr>,
      trace = [], routines = [], remote = ()\<rparr>"

definition session :: "int \<Rightarrow> unit srv" where
  "session ttl =
     \<lparr>nsp = \<lparr>Ip = ''nsp.example'', User = ''admin'', Pass = ''secret'',
             token = \<lparr>AccessToken = ''token'', ExpiresIn = ttl\<rparr>\<rparr>,
      trace = [], routines = [], remote = ()\<rparr>"

definition credentials :: "string \<Rightarrow> string \<Rightarrow> string \<Rightarrow> connect_request" where
  "credentials ip user pass =
     \<lparr>decode_error = None, body_Ip = Some ip, body_User = Some user, body_Pass = Some pass\<rparr>"

definition catalog :: "int list \<Rightarrow> IntentType list" where
  "catalog versions = map (\<lambda>v. \<lparr>Name = ''foo_bar'', Version = v\<rparr>) versions"

section \<open>The composite key \<open>name_version\<close>\<close>

lemma digit_char_not_underscore: "d < 10 \<Longrightarrow> digit_char d \<noteq> CHR ''_''"
proof -
  assume "d < 10"
  then have "d \<in> {0, 1, 2, 3, 4, 5, 6, 7, 8, 9}" by auto
  then show ?thesis by (auto simp: digit_char_def)
qed

lemma dec_nat_no_underscore: "CHR ''_'' \<notin> set (dec_nat n)"
proof (induction n rule: dec_nat.induct)
  case (1 n)
  show ?case
  proof (cases "n < 10")
    case True
    then show ?thesis using digit_char_not_underscore [of n] by simp
  next
    case False
    have "n mod 10 < 10" by simp
    then have "digit_char (n mod 10) \<noteq> CHR ''_''" by (rule digit_char_not_underscore)
    with False "1.IH" show ?thesis by (subst dec_nat.simps) auto
  qed
qed

lemma fmt_d_no_underscore: "CHR ''_'' \<notin> set (fmt_d i)"
  by (simp add: fmt_d_def dec_nat_no_underscore del: dec_nat.simps)

lemma match_single: "(take (Suc 0) (drop j s) = [ch]) = (j < length s \<and> s ! j = ch)"
proof (cases "j < length s")
  case True
  then have "drop j s = s ! j # drop (Suc j) s" by (simp add: Cons_nth_drop_Suc)
  then show ?thesis using True by simp
next
  case False
  then show ?thesis by simp
qed

lemma LastIndex_scan_found:
  "k \<le> i \<Longrightarrow> take (length sub) (drop k s) = sub
   \<Longrightarrow> (\<And>j. k < j \<Longrightarrow> j \<le> i \<Longrightarrow> take (length sub) (drop j s) \<noteq> sub)
   \<Longrightarrow> LastIndex_scan s sub i = int k"
proof (induction i)
  case 0
  then show ?case by simp
next
  case (Suc i)
  show ?case
  proof (cases "k = Suc i")
    case True
    with Suc.prems show ?thesis by simp
  next
    case False
    with Suc.prems have le: "k \<le> i" and lt: "k < Suc i" by auto
    have nomatch: "take (length sub) (drop (Suc i) s) \<noteq> sub"
      using Suc.prems(3) [OF lt] by simp
    have "LastIndex_scan s sub i = int k"
      using le Suc.prems(2) Suc.prems(3) by (intro Suc.IH) auto
    with nomatch show ?thesis by simp
  qed
qed

lemma LastIndex_scan_none:
  "(\<And>j. j \<le> i \<Longrightarrow> take (length sub) (drop j s) \<noteq> sub) \<Longrightarrow> LastIndex_scan s sub i = - 1"
proof (induction i)
  case 0
  from 0 [of 0] show ?case by simp
next
  case (Suc i)
  from Suc.prems [of "Suc i"] have "take (length sub) (drop (Suc i) s) \<noteq> sub" by simp
  moreover have "LastIndex_scan s sub i = - 1" using Suc.prems by (intro Suc.IH) auto
  ultimately show ?case by simp
qed

lemma LastIndex_scan_minus_one:
  "LastIndex_scan s sub i = - 1 \<Longrightarrow> j \<le> i \<Longrightarrow> take (length sub) (drop j s) \<noteq> sub"
proof (induction i)
  case 0
  then show ?case by (auto split: if_splits)
next
  case (Suc i)
  then show ?case by (cases "j = Suc i") (auto split: if_splits)
qed

lemma LastIndex_underscore_none:
  "(LastIndex s ''_'' = - 1) = (CHR ''_'' \<notin> set s)"
proof
  assume neg: "LastIndex s ''_'' = - 1"
  show "CHR ''_'' \<notin> set s"
  proof
    assume "CHR ''_'' \<in> set s"
    then obtain j where j: "j < length s" "s ! j = CHR ''_''" by (auto simp: in_set_conv_nth)
    then have len: "\<not> length s < length ''_''" by auto
    with neg have "LastIndex_scan s ''_'' (length s - 1) = - 1" by (simp add: LastIndex_def)
    moreover have "j \<le> length s - 1" using j by simp
    ultimately have "take (length ''_'') (drop j s) \<noteq> ''_''" by (rule LastIndex_scan_minus_one)
    with j show False by (simp add: match_single)
  qed
next
  assume no: "CHR ''_'' \<notin> set s"
  have "LastIndex_scan s ''_'' (length s - 1) = - 1"
  proof (rule LastIndex_scan_none)
    fix j
    have "\<not> (j < length s \<and> s ! j = CHR ''_'')"
      using no nth_mem [of j s] by metis
    then show "take (length ''_'') (drop j s) \<noteq> ''_''"
      using match_single [of j s "CHR ''_''"] by simp
  qed
  then show "LastIndex s ''_'' = - 1" by (simp add: LastIndex_def)
qed

lemma LastIndex_underscore_last:
  assumes "CHR ''_'' \<notin> set v"
  shows "LastIndex (name @ ''_'' @ v) ''_'' = int (length name)"
proof -
  let ?s = "name @ ''_'' @ v"
  have "LastIndex_scan ?s ''_'' (length ?s - 1) = int (length name)"
  proof (rule LastIndex_scan_found)
    show "length name \<le> length ?s - 1" by simp
    show "take (length ''_'') (drop (length name) ?s) = ''_''" by simp
    fix j
    assume j: "length name < j" "j \<le> length ?s - 1"
    then have "?s ! j = v ! (j - length name - 1)" by (simp add: nth_append nth_Cons')
    moreover have "j - length name - 1 < length v" using j by simp
    ultimately have "?s ! j \<in> set v" by simp
    with assms have "?s ! j \<noteq> CHR ''_''" by auto
    then show "take (length ''_'') (drop j ?s) \<noteq> ''_''"
      using match_single [of j ?s "CHR ''_''"] by simp
  qed
  then show ?thesis by (simp add: LastIndex_def)
qed

lemma splitIntentType_key:
  "CHR ''_'' \<notin> set v \<Longrightarrow> splitIntentType (name @ ''_'' @ v) = Inr (name, v)"
proof -
  assume "CHR ''_'' \<notin> set v"
  then have "LastIndex (name @ ''_'' @ v) ''_'' = int (length name)"
    by (rule LastIndex_underscore_last)
  moreover have "nat (int (length name) + 1) = Suc (length name)" by simp
  ultimately show ?thesis by (simp add: splitIntentType_def)
qed

lemma splitIntentType_invalid:
  "(splitIntentType key = Inl e) = (CHR ''_'' \<notin> set key \<and> e = InvalidIntentTypeFormat key)"
  using LastIndex_underscore_none [of key] by (auto simp: splitIntentType_def Let_def)

lemma intentTypeYangModules_trace:
  "splitIntentType key = Inr (name, version) \<Longrightarrow>
   trace (snd (intentTypeYangModules c key s))
     = trace s @ [HTTPRequest ''GET'' (yangModulesUrl (Ip (nsp s)) name version) NoBody]"
  by (simp add: intentTypeYangModules_def makeHTTPRequest_def
      split: prod.splits sum.splits option.splits)

lemma intentTypeYangModules_invalid:
  "(\<exists>k. fst (intentTypeYangModules c key s) = Inl (InvalidIntentTypeFormat k))
     = (CHR ''_'' \<notin> set key)"
proof (cases "splitIntentType key")
  case (Inl e)
  then have "CHR ''_'' \<notin> set key" and "e = InvalidIntentTypeFormat key"
    by (simp_all add: splitIntentType_invalid)
  with Inl show ?thesis by (simp add: intentTypeYangModules_def)
next
  case (Inr nv)
  then have "CHR ''_'' \<in> set key"
    using splitIntentType_invalid [of key "InvalidIntentTypeFormat key"] by auto
  with Inr show ?thesis
    by (auto simp: intentTypeYangModules_def split: prod.splits sum.splits option.splits)
qed

text \<open>
  C9. \<^verbatim>\<open>intentTypeYangModules\<close> splits its key at the last underscore. The key
  \<^verbatim>\<open>intentTypeSearch\<close> builds from any name and any version splits back into that name
  and the decimal text of that version, and the one request sent for it is the GET keyed by
  these two; \<^verbatim>\<open>foo_bar_2\<close> splits into \<^verbatim>\<open>foo_bar\<close> and \<^verbatim>\<open>2\<close>. The function
  fails with the invalid-format error exactly when the key has no underscore.
\<close>

theorem C9_key_splits_at_last_underscore:
  "splitIntentType (intentTypeKey it) = Inr (Name it, fmt_d (Version it))
   \<and> trace (snd (intentTypeYangModules c (intentTypeKey it) s))
       = trace s @ [HTTPRequest ''GET''
                      (yangModulesUrl (Ip (nsp s)) (Name it) (fmt_d (Version it))) NoBody]
   \<and> splitIntentType ''foo_bar_2'' = Inr (''foo_bar'', ''2'')
   \<and> intentTypeKey \<lparr>Name = ''foo_bar'', Version = 2\<rparr> = ''foo_bar_2''
   \<and> fst (intentTypeYangModules c ''noversion'' s) = Inl (InvalidIntentTypeFormat ''noversion'')
   \<and> ((\<exists>k. fst (intentTypeYangModules c key s) = Inl (InvalidIntentTypeFormat k))
        = (CHR ''_'' \<notin> set key))"
proof -
  have split: "splitIntentType (intentTypeKey it) = Inr (Name it, fmt_d (Version it))"
    unfolding intentTypeKey_def by (rule splitIntentType_key) (rule fmt_d_no_underscore)
  have foo: "splitIntentType ''foo_bar_2'' = Inr (''foo_bar'', ''2'')"
    using splitIntentType_key [of "''2''" "''foo_bar''"] by simp
  have key: "intentTypeKey \<lparr>Name = ''foo_bar'', Version = 2\<rparr> = ''foo_bar_2''"
    by (simp add: intentTypeKey_def fmt_d_def digit_char_def)
  have "splitIntentType ''noversion'' = Inl (InvalidIntentTypeFormat ''noversion'')"
    by (simp add: splitIntentType_invalid)
  then have nov: "fst (intentTypeYangModules c ''noversion'' s)
      = Inl (InvalidIntentTypeFormat ''noversion'')"
    by (simp add: intentTypeYangModules_def)
  show ?thesis
    using split intentTypeYangModules_trace [OF split] foo key nov
      intentTypeYangModules_invalid [of c key s]
    by blast
qed

section \<open>Facts about the collaborator calls\<close>

lemma revokeToken_trace: "trace (snd (revokeToken c s)) = trace s @ [RevokeTokenCall]"
  by (simp add: revokeToken_def split: prod.splits)

lemma getToken_trace: "trace (snd (getToken c s)) = trace s @ [GetTokenCall]"
  by (simp add: getToken_def split: prod.splits)

lemma revokeToken_routines: "routines (snd (revokeToken c s)) = routines s"
  by (simp add: revokeToken_def split: prod.splits)

lemma getToken_routines: "routines (snd (getToken c s)) = routines s"
  by (simp add: getToken_def split: prod.splits)

section \<open>Connect with missing credentials\<close>

lemma raiseError_missing:
  "raiseError ''NSP credentials are missing'' None = InternalServerError ''NSP credentials are missing''"
  by (simp add: raiseError_def writeResponse_def)

lemma nspConnect_missing:
  "decode_error r = None \<Longrightarrow> missing_credentials (Decode r (nsp s)) \<Longrightarrow>
   nspConnect c r s
     = (InternalServerError ''NSP credentials are missing'', s\<lparr>nsp := Decode r (nsp s)\<rparr>)"
  by (simp add: nspConnect_def missing_credentials_def raiseError_missing Let_def)

lemma Decode_explicit_empty:
  "body_Ip r = Some [] \<or> body_User r = Some [] \<or> body_Pass r = Some []
   \<Longrightarrow> missing_credentials (Decode r n)"
  by (auto simp: missing_credentials_def Decode_def)

lemma nspConnect_not_missing:
  assumes "decode_error r = None" and "\<not> missing_credentials (Decode r (nsp s))"
  shows "fst (nspConnect c r s) \<noteq> InternalServerError ''NSP credentials are missing''
     \<and> trace (snd (nspConnect c r s)) = trace s @ [GetTokenCall]"
proof (cases "getToken c (s\<lparr>nsp := Decode r (nsp s)\<rparr>)")
  case (Pair e s1)
  then have "trace s1 = trace s @ [GetTokenCall]"
    using getToken_trace [of c "s\<lparr>nsp := Decode r (nsp s)\<rparr>"] by simp
  with Pair assms show ?thesis
    by (cases e)
       (simp_all add: nspConnect_def Let_def missing_credentials_def raiseError_def
          writeResponse_def)
qed

lemma missing_after_Decode:
  "missing_credentials (Decode r n) =
     ((case body_Ip r of None \<Rightarrow> Ip n | Some v \<Rightarrow> v) = []
      \<or> (case body_User r of None \<Rightarrow> User n | Some v \<Rightarrow> v) = []
      \<or> (case body_Pass r of None \<Rightarrow> Pass n | Some v \<Rightarrow> v) = [])"
  by (simp add: missing_credentials_def Decode_def)

lemma connect_without_password:
  "nspConnect (catalog_platform [])
     \<lparr>decode_error = None, body_Ip = Some ''nsp.example'', body_User = Some ''admin'',
      body_Pass = None\<rparr>
     (session 3600)
   = (OK ''NSP connected'', (session 3600)\<lparr>trace := [GetTokenCall], routines := [AtLoopHead]\<rparr>)"
  by (simp add: nspConnect_def Decode_def session_def getToken_def catalog_platform_def
      writeResponse_def)

text \<open>
  C8, as the code has it. The emptiness test of \<^verbatim>\<open>nspConnect\<close> is made on \<^verbatim>\<open>s.nsp\<close>
  after the body has been decoded into it, where a field the body does not name keeps the
  value stored before. For every connect request whose body decodes, \<^verbatim>\<open>nspConnect\<close>
  answers with the error \<^verbatim>\<open>NSP credentials are missing\<close> exactly when the host, the user
  name or the password is empty after decoding: the body gives it as the empty string, or
  the body does not name it and none is stored. Then it reaches none of its collaborators:
  no \<^verbatim>\<open>getToken\<close> call is made, the remote platform is as before, no renewal goroutine is
  started and the token is untouched. Every request that gives a field as the empty string
  is rejected so. In every other case \<^verbatim>\<open>getToken\<close> is called, with the stored value
  for a field the body does not name.
\<close>

theorem C8_rejected_exactly_when_empty_after_decoding:
  assumes "decode_error r = None"
  shows "(fst (nspConnect c r s) = InternalServerError ''NSP credentials are missing'')
       = missing_credentials (Decode r (nsp s))
     \<and> missing_credentials (Decode r (nsp s)) =
         ((case body_Ip r of None \<Rightarrow> Ip (nsp s) | Some v \<Rightarrow> v) = []
          \<or> (case body_User r of None \<Rightarrow> User (nsp s) | Some v \<Rightarrow> v) = []
          \<or> (case body_Pass r of None \<Rightarrow> Pass (nsp s) | Some v \<Rightarrow> v) = [])
     \<and> (missing_credentials (Decode r (nsp s)) \<longrightarrow>
          trace (snd (nspConnect c r s)) = trace s
          \<and> routines (snd (nspConnect c r s)) = routines s
          \<and> remote (snd (nspConnect c r s)) = remote s
          \<and> token (nsp (snd (nspConnect c r s))) = token (nsp s))
     \<and> (body_Ip r = Some [] \<or> body_User r = Some [] \<or> body_Pass r = Some [] \<longrightarrow>
          missing_credentials (Decode r (nsp s)))
     \<and> (\<not> missing_credentials (Decode r (nsp s)) \<longrightarrow>
          trace (snd (nspConnect c r s)) = trace s @ [GetTokenCall])"
proof (cases "missing_credentials (Decode r (nsp s))")
  case True
  from nspConnect_missing [OF assms True, of c] True show ?thesis
    using missing_after_Decode [of r "nsp s"] by (simp add: Decode_def)
next
  case False
  from nspConnect_not_missing [OF assms False, of c] False show ?thesis
    using missing_after_Decode [of r "nsp s"] Decode_explicit_empty [of r "nsp s"] by blast
qed

text \<open>
  C8 as the code has it: a request with an empty user name, sent to a server that holds a
  session, is rejected with an empty trace and no goroutine; a request with all three
  fields, sent to the never-connected server, reaches \<^verbatim>\<open>getToken\<close>.
\<close>

theorem C8_witness:
  "decode_error (credentials ''nsp.example'' [] ''secret'') = None
   \<and> body_User (credentials ''nsp.example'' [] ''secret'') = Some []
   \<and> fst (nspConnect (catalog_platform []) (credentials ''nsp.example'' [] ''secret'') (session 3600))
       = InternalServerError ''NSP credentials are missing''
   \<and> trace (snd (nspConnect (catalog_platform []) (credentials ''nsp.example'' [] ''secret'') (session 3600))) = []
   \<and> routines (snd (nspConnect (catalog_platform []) (credentials ''nsp.example'' [] ''secret'') (session 3600))) = []
   \<and> decode_error (credentials ''nsp.example'' ''admin'' ''secret'') = None
   \<and> \<not> missing_credentials (Decode (credentials ''nsp.example'' ''admin'' ''secret'') (nsp no_session))
   \<and> trace (snd (nspConnect (catalog_platform []) (credentials ''nsp.example'' ''admin'' ''secret'') no_session))
       = [GetTokenCall]"
proof -
  let ?r = "credentials ''nsp.example'' [] ''secret''"
  let ?g = "credentials ''nsp.example'' ''admin'' ''secret''"
  have d: "decode_error ?r = None" and u: "body_User ?r = Some []"
    by (simp_all add: credentials_def)
  have t: "trace (session 3600) = []" "routines (session 3600) = []" by (simp_all add: session_def)
  note inst = C8_rejected_exactly_when_empty_after_decoding [OF d, of "catalog_platform []" "session 3600"]
  from inst u have m: "missing_credentials (Decode ?r (nsp (session 3600)))" by blast
  from inst m have a: "fst (nspConnect (catalog_platform []) ?r (session 3600))
       = InternalServerError ''NSP credentials are missing''" by blast
  from inst m t have b: "trace (snd (nspConnect (catalog_platform []) ?r (session 3600))) = []"
    "routines (snd (nspConnect (catalog_platform []) ?r (session 3600))) = []"
    by simp_all
  have dg: "decode_error ?g = None" by (simp add: credentials_def)
  have ng: "\<not> missing_credentials (Decode ?g (nsp no_session))"
    by (simp add: credentials_def missing_credentials_def Decode_def)
  have tn: "trace no_session = []" by (simp add: no_session_def)
  from C8_rejected_exactly_when_empty_after_decoding [OF dg, of "catalog_platform []" no_session] ng
  have "trace (snd (nspConnect (catalog_platform []) ?g no_session)) = trace no_session @ [GetTokenCall]"
    by blast
  then have g: "trace (snd (nspConnect (catalog_platform []) ?g no_session)) = [GetTokenCall]"
    by (simp add: tn)
  from d u a b dg ng g show ?thesis by blast
qed

text \<open>
  C8 as stated fails. The server holds the session of \<^verbatim>\<open>admin\<close> on \<^verbatim>\<open>nsp.example\<close>. A
  connect request names the host and the user and has no password (the body omits it or
  gives \<^verbatim>\<open>null\<close>, and the decoder leaves \<^verbatim>\<open>s.nsp.Pass\<close> as it is). The request is not
  rejected: \<^verbatim>\<open>nspConnect\<close> calls \<^verbatim>\<open>getToken\<close> with the stored password, answers
  \<^verbatim>\<open>NSP connected\<close> and starts a renewal goroutine.
\<close>

theorem C8_counterexample:
  "body_Pass \<lparr>decode_error = None, body_Ip = Some ''nsp.example'', body_User = Some ''admin'',
              body_Pass = None\<rparr> = None
   \<and> Pass (nsp (session 3600)) = ''secret''
   \<and> nspConnect (catalog_platform [])
       \<lparr>decode_error = None, body_Ip = Some ''nsp.example'', body_User = Some ''admin'',
        body_Pass = None\<rparr>
       (session 3600)
     = (OK ''NSP connected'', (session 3600)\<lparr>trace := [GetTokenCall], routines := [AtLoopHead]\<rparr>)"
  using connect_without_password by (simp add: session_def)

text \<open>
  C10. \<^verbatim>\<open>nspConnect\<close> decodes the body into \<^verbatim>\<open>s.nsp\<close> before it validates. So a
  request that decodes and is rejected for an empty host, user name or password has
  nevertheless overwritten the stored credentials: \<^verbatim>\<open>s.nsp\<close> now holds what the decoder
  wrote, every field the body names has the body's value, and the server value differs from
  the one before whenever the decoded credentials differ from the stored ones.
\<close>

theorem C10_rejected_credentials_are_stored:
  assumes "decode_error r = None"
    and "missing_credentials (Decode r (nsp s))"
  shows "fst (nspConnect c r s) = InternalServerError ''NSP credentials are missing''
     \<and> nsp (snd (nspConnect c r s)) = Decode r (nsp s)
     \<and> (\<forall>v. body_Ip r = Some v \<longrightarrow> Ip (nsp (snd (nspConnect c r s))) = v)
     \<and> (\<forall>v. body_User r = Some v \<longrightarrow> User (nsp (snd (nspConnect c r s))) = v)
     \<and> (\<forall>v. body_Pass r = Some v \<longrightarrow> Pass (nsp (snd (nspConnect c r s))) = v)
     \<and> (Decode r (nsp s) \<noteq> nsp s \<longrightarrow> snd (nspConnect c r s) \<noteq> s)"
proof -
  have eq: "nspConnect c r s
      = (InternalServerError ''NSP credentials are missing'', s\<lparr>nsp := Decode r (nsp s)\<rparr>)"
    using assms by (rule nspConnect_missing)
  have "Decode r (nsp s) \<noteq> nsp s \<longrightarrow> s\<lparr>nsp := Decode r (nsp s)\<rparr> \<noteq> s"
  proof
    assume ne: "Decode r (nsp s) \<noteq> nsp s"
    show "s\<lparr>nsp := Decode r (nsp s)\<rparr> \<noteq> s"
    proof
      assume "s\<lparr>nsp := Decode r (nsp s)\<rparr> = s"
      then have "nsp (s\<lparr>nsp := Decode r (nsp s)\<rparr>) = nsp s" by simp
      with ne show False by simp
    qed
  qed
  with eq show ?thesis by (simp add: Decode_def)
qed

text \<open>
  C10 at a request with an empty password, sent to a server that holds the session of
  \<^verbatim>\<open>admin\<close> on \<^verbatim>\<open>nsp.example\<close>: the request is rejected, and the stored host and user
  are now those of the rejected request.
\<close>

theorem C10_witness:
  "decode_error (credentials ''other.example'' ''root'' []) = None
   \<and> missing_credentials (Decode (credentials ''other.example'' ''root'' []) (nsp (session 3600)))
   \<and> fst (nspConnect (catalog_platform []) (credentials ''other.example'' ''root'' []) (session 3600))
       = InternalServerError ''NSP credentials are missing''
   \<and> Ip (nsp (snd (nspConnect (catalog_platform []) (credentials ''other.example'' ''root'' []) (session 3600))))
       = ''other.example''
   \<and> User (nsp (snd (nspConnect (catalog_platform []) (credentials ''other.example'' ''root'' []) (session 3600))))
       = ''root''
   \<and> Pass (nsp (snd (nspConnect (catalog_platform []) (credentials ''other.example'' ''root'' []) (session 3600))))
       = []
   \<and> snd (nspConnect (catalog_platform []) (credentials ''other.example'' ''root'' []) (session 3600))
       \<noteq> session 3600"
proof -
  let ?r = "credentials ''other.example'' ''root'' []"
  have d: "decode_error ?r = None"
    by (simp add: credentials_def)
  have m: "missing_credentials (Decode ?r (nsp (session 3600)))"
    by (simp add: credentials_def missing_credentials_def Decode_def)
  have ne: "Decode ?r (nsp (session 3600)) \<noteq> nsp (session 3600)"
    by (simp add: credentials_def Decode_def session_def)
  have b: "body_Ip ?r = Some ''other.example''" "body_User ?r = Some ''root''" "body_Pass ?r = Some []"
    by (simp_all add: credentials_def)
  show ?thesis
    using d m ne b C10_rejected_credentials_are_stored [OF d m, of "catalog_platform []"]
    by blast
qed

section \<open>Disconnect when the revoke call fails\<close>





section \<open>The renewal routine and the ttl\<close>

lemma step_AtLoopHead_zero:
  "ExpiresIn (token (nsp s)) = 0 \<Longrightarrow> tokenRefreshRoutine_step c AtLoopHead s = (Returned, s)"
  by (simp add: tokenRefreshRoutine_step_def)

lemma step_AtLoopHead_nonzero:
  "ExpiresIn (token (nsp s)) \<noteq> 0 \<Longrightarrow>
   tokenRefreshRoutine_step c AtLoopHead s =
     (Sleeping (sleep_duration (ExpiresIn (token (nsp s)))),
      s\<lparr>trace := trace s @ [Sleep (sleep_duration (ExpiresIn (token (nsp s))))]\<rparr>)"
  by (simp add: tokenRefreshRoutine_step_def Let_def)

lemma step_Sleeping_trace:
  "\<exists>rest. trace (snd (tokenRefreshRoutine_step c (Sleeping d) s)) = trace s @ RevokeTokenCall # rest"
proof (cases "revokeToken c s")
  case (Pair e s1)
  then have t1: "trace s1 = trace s @ [RevokeTokenCall]"
    using revokeToken_trace [of c s] by simp
  show ?thesis
  proof (cases e)
    case (Some err)
    with Pair t1 show ?thesis by (simp add: tokenRefreshRoutine_step_def)
  next
    case None
    obtain e2 s2 where g: "getToken c s1 = (e2, s2)" by (cases "getToken c s1")
    then have "trace s2 = trace s1 @ [GetTokenCall]" using getToken_trace [of c s1] by simp
    with Pair None g t1 show ?thesis
      by (cases e2) (simp_all add: tokenRefreshRoutine_step_def)
  qed
qed

lemma step_trace_extends:
  "\<exists>rest. trace (snd (tokenRefreshRoutine_step c pc s)) = trace s @ rest"
proof (cases pc)
  case AtLoopHead
  then show ?thesis by (simp add: tokenRefreshRoutine_step_def Let_def)
next
  case (Sleeping d)
  then show ?thesis using step_Sleeping_trace [of c d s] by auto
next
  case Returned
  then show ?thesis by (simp add: tokenRefreshRoutine_step_def)
qed

lemma run_trace_extends:
  assumes run: "tokenRefreshRoutine_from c pc s = Some s'"
  shows "\<exists>rest. trace s' = trace s @ rest"
proof (rule tokenRefreshRoutine_from.raw_induct
    [where P = "\<lambda>c pc s s'. \<exists>rest. trace s' = trace s @ rest", OF _ run])
  fix run c pc and s s' :: "'a srv"
  assume IH: "\<And>c pc s s'. run c pc s = Some s' \<Longrightarrow> \<exists>rest. trace s' = trace s @ rest"
    and eq: "(if pc = Returned then Some s
              else case tokenRefreshRoutine_step c pc s of (pc', s') \<Rightarrow> run c pc' s') = Some s'"
  show "\<exists>rest. trace s' = trace s @ rest"
  proof (cases "pc = Returned")
    case True
    with eq show ?thesis by simp
  next
    case False
    obtain pc1 s1 where st: "tokenRefreshRoutine_step c pc s = (pc1, s1)"
      by (cases "tokenRefreshRoutine_step c pc s")
    with False eq have "run c pc1 s1 = Some s'" by simp
    then obtain rest where r: "trace s' = trace s1 @ rest" using IH by blast
    from st obtain rest1 where "trace s1 = trace s @ rest1"
      using step_trace_extends [of c pc s] by auto
    with r show ?thesis by simp
  qed
qed

lemma routine_zero: "ExpiresIn (token (nsp s)) = 0 \<Longrightarrow> tokenRefreshRoutine c s = Some s"
  unfolding tokenRefreshRoutine_def
  by (subst tokenRefreshRoutine_from.simps, simp add: step_AtLoopHead_zero)
     (subst tokenRefreshRoutine_from.simps, simp)

lemma routine_nonzero:
  assumes nz: "ExpiresIn (token (nsp s)) \<noteq> 0"
    and run: "tokenRefreshRoutine c s = Some s'"
  shows "\<exists>rest. trace s' =
           trace s @ Sleep (sleep_duration (ExpiresIn (token (nsp s)))) # RevokeTokenCall # rest"
proof -
  let ?d = "sleep_duration (ExpiresIn (token (nsp s)))"
  let ?s0 = "s\<lparr>trace := trace s @ [Sleep ?d]\<rparr>"
  obtain pc1 s1 where st: "tokenRefreshRoutine_step c (Sleeping ?d) ?s0 = (pc1, s1)"
    by (cases "tokenRefreshRoutine_step c (Sleeping ?d) ?s0")
  from run nz have "tokenRefreshRoutine_from c (Sleeping ?d) ?s0 = Some s'"
    unfolding tokenRefreshRoutine_def
    by (subst (asm) tokenRefreshRoutine_from.simps) (simp add: step_AtLoopHead_nonzero)
  with st have "tokenRefreshRoutine_from c pc1 s1 = Some s'"
    by (subst (asm) tokenRefreshRoutine_from.simps) simp
  then obtain rest where r: "trace s' = trace s1 @ rest" using run_trace_extends by blast
  from st obtain rest1 where "trace s1 = trace ?s0 @ RevokeTokenCall # rest1"
    using step_Sleeping_trace [of c ?d ?s0] by auto
  with r show ?thesis by simp
qed

lemma int64_in_range:
  "- 9223372036854775808 \<le> x \<Longrightarrow> x \<le> 9223372036854775807 \<Longrightarrow> int64 x = x"
  by (simp add: int64_def)

lemma sleep_duration_exact:
  assumes "- 9223372026 \<le> ttl" and "ttl \<le> 9223372046"
  shows "sleep_duration ttl = 1000000000 * (ttl - 10)"
proof -
  have "int64 (ttl - 10) = ttl - 10" using assms by (intro int64_in_range) simp_all
  moreover have "int64 (1000000000 * (ttl - 10)) = 1000000000 * (ttl - 10)"
    using assms by (intro int64_in_range) simp_all
  ultimately show ?thesis by (simp add: sleep_duration_def)
qed

lemma sleep_duration_short:
  "0 < ttl \<Longrightarrow> ttl \<le> 10 \<Longrightarrow> sleep_duration ttl \<le> 0"
  by (simp add: sleep_duration_exact)

lemma session5_run:
  "tokenRefreshRoutine (catalog_platform []) (session 5)
     = Some ((session 5)\<lparr>trace := [Sleep (- 5000000000), RevokeTokenCall]\<rparr>)"
  unfolding tokenRefreshRoutine_def
  apply (subst tokenRefreshRoutine_from.simps)
  apply (simp add: tokenRefreshRoutine_step_def session_def sleep_duration_def int64_def)
  apply (subst tokenRefreshRoutine_from.simps)
  apply (simp add: tokenRefreshRoutine_step_def revokeToken_def catalog_platform_def)
  apply (subst tokenRefreshRoutine_from.simps)
  apply simp
  done

text \<open>
  C5, as the code has it. \<^verbatim>\<open>tokenRefreshRoutine\<close> returns without a revoke or a token
  request when the ttl is 0, and then the server value is unchanged. For every other ttl it
  enters \<^verbatim>\<open>time.Sleep\<close> with the \<^verbatim>\<open>int64\<close> product of \<^verbatim>\<open>time.Second\<close> and ttl - 10, and
  when the sleep ends its first call is \<^verbatim>\<open>revokeToken\<close>: a run that returns has made the
  sleep and the revoke call first. The product is ttl - 10 seconds for every ttl from
  -9223372026 to 9223372046 and wraps beyond; for a ttl of 1 to 10 seconds it is not
  positive.
\<close>

theorem C5_refresh_returns_only_at_ttl_zero:
  "(ExpiresIn (token (nsp s)) = 0 \<longrightarrow> tokenRefreshRoutine c s = Some s)
   \<and> (ExpiresIn (token (nsp s)) \<noteq> 0 \<longrightarrow>
        tokenRefreshRoutine_step c AtLoopHead s =
          (Sleeping (sleep_duration (ExpiresIn (token (nsp s)))),
           s\<lparr>trace := trace s @ [Sleep (sleep_duration (ExpiresIn (token (nsp s))))]\<rparr>)
        \<and> (\<forall>s'. tokenRefreshRoutine c s = Some s' \<longrightarrow>
              (\<exists>rest. trace s' =
                 trace s @ Sleep (sleep_duration (ExpiresIn (token (nsp s)))) # RevokeTokenCall # rest)))
   \<and> (\<exists>rest. trace (snd (tokenRefreshRoutine_step c (Sleeping d) s)) = trace s @ RevokeTokenCall # rest)
   \<and> (- 9223372026 \<le> ttl \<and> ttl \<le> 9223372046 \<longrightarrow> sleep_duration ttl = 1000000000 * (ttl - 10))
   \<and> (0 < ttl \<and> ttl \<le> 10 \<longrightarrow> sleep_duration ttl \<le> 0)"
  using routine_zero [of s c] step_AtLoopHead_nonzero [of s c] routine_nonzero [of s c]
    step_Sleeping_trace [of c d s] sleep_duration_exact [of ttl] sleep_duration_short [of ttl]
  by blast

text \<open>
  C5 as the code has it, at a ttl of 0, at a ttl of 7 seconds (a sleep of -3 seconds), and
  at a ttl of 9223372047 seconds, where the product wraps to a negative duration.
\<close>

theorem C5_witness:
  "tokenRefreshRoutine (catalog_platform []) (session 0) = Some (session 0)
   \<and> ExpiresIn (token (nsp (session 7))) \<noteq> 0
   \<and> tokenRefreshRoutine_step (catalog_platform []) AtLoopHead (session 7)
       = (Sleeping (- 3000000000), (session 7)\<lparr>trace := [Sleep (- 3000000000)]\<rparr>)
   \<and> sleep_duration 3600 = 3590000000000
   \<and> sleep_duration 7 \<le> 0
   \<and> tokenRefreshRoutine_step (catalog_platform []) AtLoopHead (session 9223372047)
       = (Sleeping (- 9223372036709551616),
          (session 9223372047)\<lparr>trace := [Sleep (- 9223372036709551616)]\<rparr>)"
proof -
  have z: "ExpiresIn (token (nsp (session 0))) = 0" by (simp add: session_def)
  have n: "ExpiresIn (token (nsp (session 7))) \<noteq> 0" "ExpiresIn (token (nsp (session 7))) = 7"
    "trace (session 7) = []"
    by (simp_all add: session_def)
  have b: "ExpiresIn (token (nsp (session 9223372047))) \<noteq> 0"
    "ExpiresIn (token (nsp (session 9223372047))) = 9223372047"
    "trace (session 9223372047) = []"
    by (simp_all add: session_def)
  have wrap: "sleep_duration 9223372047 = - 9223372036709551616"
    by (simp add: sleep_duration_def int64_def)
  from z C5_refresh_returns_only_at_ttl_zero [of "session 0" "catalog_platform []"]
  have a: "tokenRefreshRoutine (catalog_platform []) (session 0) = Some (session 0)" by blast
  have r1: "(- 9223372026::int) \<le> 3600 \<and> (3600::int) \<le> 9223372046" by simp
  have r2: "(- 9223372026::int) \<le> 7 \<and> (7::int) \<le> 9223372046" by simp
  have r3: "(0::int) < 7 \<and> (7::int) \<le> 10" by simp
  from r1 C5_refresh_returns_only_at_ttl_zero [of _ _ _ 3600]
  have "sleep_duration 3600 = 1000000000 * (3600 - 10)" by blast
  then have d1: "sleep_duration 3600 = 3590000000000" by simp
  from r2 C5_refresh_returns_only_at_ttl_zero [of _ _ _ 7]
  have "sleep_duration 7 = 1000000000 * (7 - 10)" by blast
  then have d2: "sleep_duration 7 = - 3000000000" by simp
  from r3 C5_refresh_returns_only_at_ttl_zero [of _ _ _ 7]
  have d3: "sleep_duration 7 \<le> 0" by blast
  from n(1) C5_refresh_returns_only_at_ttl_zero [of "session 7" "catalog_platform []"]
  have "tokenRefreshRoutine_step (catalog_platform []) AtLoopHead (session 7) =
          (Sleeping (sleep_duration (ExpiresIn (token (nsp (session 7))))),
           (session 7)\<lparr>trace := trace (session 7)
              @ [Sleep (sleep_duration (ExpiresIn (token (nsp (session 7)))))]\<rparr>)"
    by blast
  with n d2 have s7: "tokenRefreshRoutine_step (catalog_platform []) AtLoopHead (session 7)
       = (Sleeping (- 3000000000), (session 7)\<lparr>trace := [Sleep (- 3000000000)]\<rparr>)" by simp
  from b(1) C5_refresh_returns_only_at_ttl_zero [of "session 9223372047" "catalog_platform []"]
  have "tokenRefreshRoutine_step (catalog_platform []) AtLoopHead (session 9223372047) =
          (Sleeping (sleep_duration (ExpiresIn (token (nsp (session 9223372047))))),
           (session 9223372047)\<lparr>trace := trace (session 9223372047)
              @ [Sleep (sleep_duration (ExpiresIn (token (nsp (session 9223372047)))))]\<rparr>)"
    by blast
  with b wrap have s9: "tokenRefreshRoutine_step (catalog_platform []) AtLoopHead (session 9223372047)
       = (Sleeping (- 9223372036709551616),
          (session 9223372047)\<lparr>trace := [Sleep (- 9223372036709551616)]\<rparr>)" by simp
  from a n(1) s7 d1 d3 s9 show ?thesis by blast
qed

text \<open>
  C5 as stated fails at a ttl of 5 seconds, which is no more than the margin of 10: the
  routine calls \<^verbatim>\<open>time.Sleep\<close> with -5 seconds and then \<^verbatim>\<open>revokeToken\<close>; the call is
  refused here, and only then does the routine return.
\<close>

theorem C5_counterexample:
  "ExpiresIn (token (nsp (session 5))) \<le> 10
   \<and> tokenRefreshRoutine (catalog_platform []) (session 5)
       = Some ((session 5)\<lparr>trace := [Sleep (- 5000000000), RevokeTokenCall]\<rparr>)"
  using session5_run by (simp add: session_def)

section \<open>Renewal goroutines started by Connect\<close>

lemma nspConnect_routines:
  "routines (snd (nspConnect c r s)) =
     (if fst (nspConnect c r s) = OK ''NSP connected'' then routines s @ [AtLoopHead]
      else routines s)"
proof (cases "getToken c (s\<lparr>nsp := Decode r (nsp s)\<rparr>)")
  case (Pair e s1)
  then have "routines s1 = routines s"
    using getToken_routines [of c "s\<lparr>nsp := Decode r (nsp s)\<rparr>"] by simp
  with Pair show ?thesis
    by (simp add: nspConnect_def Let_def raiseError_def writeResponse_def split: option.splits)
qed

lemma nspConnect_all_routines:
  "nspConnect_all c rs s = (resps, s') \<Longrightarrow> \<forall>resp \<in> set resps. resp = OK ''NSP connected''
   \<Longrightarrow> routines s' = routines s @ replicate (length rs) AtLoopHead"
proof (induction rs arbitrary: s resps)
  case Nil
  then show ?case by simp
next
  case (Cons r rs)
  obtain resp s1 where one: "nspConnect c r s = (resp, s1)" by (cases "nspConnect c r s")
  obtain resps1 s2 where rest: "nspConnect_all c rs s1 = (resps1, s2)"
    by (cases "nspConnect_all c rs s1")
  from Cons.prems(1) one rest have eq: "resps = resp # resps1" "s' = s2" by auto
  with Cons.prems(2) have ok: "resp = OK ''NSP connected''"
    and oks: "\<forall>resp \<in> set resps1. resp = OK ''NSP connected''" by auto
  from one ok have "routines s1 = routines s @ [AtLoopHead]"
    using nspConnect_routines [of c r s] by simp
  moreover from rest eq have "nspConnect_all c rs s1 = (resps1, s')" by simp
  then have "routines s' = routines s1 @ replicate (length rs) AtLoopHead"
    using oks by (rule Cons.IH)
  ultimately show ?case by (simp add: replicate_app_Cons_same)
qed

lemma live_routines_append:
  "routines s' = routines s @ replicate n AtLoopHead \<Longrightarrow> live_routines s' = live_routines s + n"
  by (simp add: live_routines_def)

lemma connect_twice:
  "nspConnect_all (catalog_platform [])
     [credentials ''nsp.example'' ''admin'' ''secret'', credentials ''nsp.example'' ''admin'' ''secret'']
     no_session
   = ([OK ''NSP connected'', OK ''NSP connected''],
      (session 3600)\<lparr>trace := [GetTokenCall, GetTokenCall], routines := [AtLoopHead, AtLoopHead]\<rparr>)"
  by (simp add: nspConnect_def Decode_def credentials_def no_session_def session_def
      getToken_def catalog_platform_def writeResponse_def)

text \<open>
  C7, as the code has it. Every successful \<^verbatim>\<open>nspConnect\<close> starts one more renewal
  goroutine and leaves the earlier ones as they are, connected before or not: after a run
  of connect requests that all succeed there is one new goroutine per request.
\<close>

theorem C7_every_connect_starts_a_routine:
  assumes "nspConnect_all c rs s = (resps, s')"
    and "\<forall>resp \<in> set resps. resp = OK ''NSP connected''"
  shows "routines s' = routines s @ replicate (length rs) AtLoopHead
     \<and> live_routines s' = live_routines s + length rs"
  using nspConnect_all_routines [OF assms] live_routines_append by blast

text \<open>C7 as the code has it, at two connects in a row from the never-connected server.\<close>

theorem C7_witness:
  "nspConnect_all (catalog_platform [])
     [credentials ''nsp.example'' ''admin'' ''secret'', credentials ''nsp.example'' ''admin'' ''secret'']
     no_session
   = ([OK ''NSP connected'', OK ''NSP connected''],
      (session 3600)\<lparr>trace := [GetTokenCall, GetTokenCall], routines := [AtLoopHead, AtLoopHead]\<rparr>)
   \<and> live_routines
        ((session 3600)\<lparr>trace := [GetTokenCall, GetTokenCall], routines := [AtLoopHead, AtLoopHead]\<rparr>)
       = live_routines no_session + 2"
proof -
  have ok: "\<forall>resp \<in> set [OK ''NSP connected'', OK ''NSP connected'']. resp = OK ''NSP connected''"
    by simp
  from C7_every_connect_starts_a_routine [OF connect_twice ok] connect_twice
  show ?thesis by simp
qed

text \<open>
  C7 as stated fails. Two connects in a row succeed; when each of the two goroutines has
  made its first move, both are asleep for 3590 seconds (3590000000000 ns): two renewal
  goroutines are live for the one session.
\<close>

theorem C7_counterexample:
  "fst (nspConnect_all (catalog_platform [])
     [credentials ''nsp.example'' ''admin'' ''secret'', credentials ''nsp.example'' ''admin'' ''secret'']
     no_session) = [OK ''NSP connected'', OK ''NSP connected'']
   \<and> routines (run_routine (catalog_platform []) 1 (run_routine (catalog_platform []) 0
       (snd (nspConnect_all (catalog_platform [])
          [credentials ''nsp.example'' ''admin'' ''secret'', credentials ''nsp.example'' ''admin'' ''secret'']
          no_session)))) = [Sleeping 3590000000000, Sleeping 3590000000000]
   \<and> live_routines (run_routine (catalog_platform []) 1 (run_routine (catalog_platform []) 0
       (snd (nspConnect_all (catalog_platform [])
          [credentials ''nsp.example'' ''admin'' ''secret'', credentials ''nsp.example'' ''admin'' ''secret'']
          no_session)))) = 2"
  unfolding connect_twice
  by (simp add: run_routine_def tokenRefreshRoutine_step_def session_def live_routines_def
      sleep_duration_def int64_def)

section \<open>The paginated search, page by page\<close>

lemma fetch_page_trace:
  "trace (snd (fetch_page c pn ps s)) = trace s @ [page_request pn ps s]"
  by (simp add: fetch_page_def makeHTTPRequest_def page_request_def split: prod.splits)

lemma fetch_page_nsp: "nsp (snd (fetch_page c pn ps s)) = nsp s"
  by (simp add: fetch_page_def makeHTTPRequest_def split: prod.splits)

lemma page_request_nsp: "nsp s1 = nsp s \<Longrightarrow> page_request pn ps s1 = page_request pn ps s"
  by (simp add: page_request_def)

text \<open>
  \<^verbatim>\<open>intentTypeSearch\<close> in terms of the fetch of its page, and the three ways in which it
  deals with the answer.
\<close>

lemma search_unfold:
  "intentTypeSearch c pn ps s =
     (case fetch_page c pn ps s of
        (Inl err, s1) \<Rightarrow> Some (Inl (FetchingIntentTypes err), s1)
      | (Inr resp, s1) \<Rightarrow>
          if StatusCode resp \<noteq> 200 then Some (Inl (FetchingIntentTypesStatus (StatusCode resp)), s1)
          else
            (case Body_IntentTypeList resp of
               None \<Rightarrow> Some (Inl DecodingIntentTypeSearchResponse, s1)
             | Some l \<Rightarrow>
                 if fetches_next ps l
                 then
                   Option.bind (intentTypeSearch c (pn + 1) ps s1)
                     (\<lambda>r. case r of
                        (Inl err, s2) \<Rightarrow> Some (Inl (FetchingPaginatedIntentTypes err), s2)
                      | (Inr nextPage, s2) \<Rightarrow>
                          Some (Inr (map intentTypeKey (Output_IntentType l) @ nextPage), s2))
                 else Some (Inr (map intentTypeKey (Output_IntentType l)), s1)))"
  by (subst intentTypeSearch.simps)
     (simp add: fetch_page_def fetches_next_def Let_def split: prod.splits sum.splits option.splits)

lemma search_transport_error:
  "fst (fetch_page c pn ps s) = Inl err \<Longrightarrow>
   intentTypeSearch c pn ps s = Some (Inl (FetchingIntentTypes err), snd (fetch_page c pn ps s))"
  by (cases "fetch_page c pn ps s") (simp add: search_unfold)

lemma search_last_page:
  "fst (fetch_page c pn ps s) = Inr resp \<Longrightarrow> ends_paging ps (Inr resp) \<Longrightarrow>
   intentTypeSearch c pn ps s =
     Some (if StatusCode resp \<noteq> 200 then Inl (FetchingIntentTypesStatus (StatusCode resp))
           else (case Body_IntentTypeList resp of
                   None \<Rightarrow> Inl DecodingIntentTypeSearchResponse
                 | Some l \<Rightarrow> Inr (map intentTypeKey (Output_IntentType l))),
           snd (fetch_page c pn ps s))"
  by (cases "fetch_page c pn ps s")
     (auto simp: search_unfold ends_paging_def split: option.splits)

lemma search_next_page:
  "fst (fetch_page c pn ps s) = Inr resp \<Longrightarrow> StatusCode resp = 200 \<Longrightarrow>
   Body_IntentTypeList resp = Some l \<Longrightarrow> fetches_next ps l \<Longrightarrow>
   intentTypeSearch c pn ps s =
     Option.bind (intentTypeSearch c (pn + 1) ps (snd (fetch_page c pn ps s)))
       (\<lambda>r. case r of
          (Inl err, s2) \<Rightarrow> Some (Inl (FetchingPaginatedIntentTypes err), s2)
        | (Inr nextPage, s2) \<Rightarrow> Some (Inr (map intentTypeKey (Output_IntentType l) @ nextPage), s2))"
  by (cases "fetch_page c pn ps s") (simp add: search_unfold)

lemma search_ends:
  assumes "ends_paging ps (fst (fetch_page c pn ps s))"
  shows "\<exists>r. intentTypeSearch c pn ps s = Some (r, snd (fetch_page c pn ps s))"
proof (cases "fst (fetch_page c pn ps s)")
  case (Inl err)
  then show ?thesis by (simp add: search_transport_error)
next
  case (Inr resp)
  with assms show ?thesis by (simp add: search_last_page)
qed

lemma search_goes_on:
  assumes "\<not> ends_paging ps (fst (fetch_page c pn ps s))"
  shows "\<exists>keys. intentTypeSearch c pn ps s =
     Option.bind (intentTypeSearch c (pn + 1) ps (snd (fetch_page c pn ps s)))
       (\<lambda>r. case r of
          (Inl err, s2) \<Rightarrow> Some (Inl (FetchingPaginatedIntentTypes err), s2)
        | (Inr nextPage, s2) \<Rightarrow> Some (Inr (keys @ nextPage), s2))"
proof -
  from assms obtain resp l where "fst (fetch_page c pn ps s) = Inr resp" "StatusCode resp = 200"
    "Body_IntentTypeList resp = Some l" "fetches_next ps l"
    by (auto simp: ends_paging_def split: sum.splits option.splits if_splits)
  then show ?thesis using search_next_page by blast
qed

lemma bind_wrap_Some:
  "Option.bind x (\<lambda>r. case r of
          (Inl err, s2) \<Rightarrow> Some (Inl (FetchingPaginatedIntentTypes err), s2)
        | (Inr nextPage, s2) \<Rightarrow> Some (Inr (keys @ nextPage), s2)) = Some (r, s')
   \<Longrightarrow> \<exists>r1. x = Some (r1, s')"
  by (cases x) (auto split: prod.splits sum.splits)

lemma bind_wrap_of_Some:
  "\<exists>r. Option.bind (Some (r1, s')) (\<lambda>r. case r of
          (Inl err, s2) \<Rightarrow> Some (Inl (FetchingPaginatedIntentTypes err), s2)
        | (Inr nextPage, s2) \<Rightarrow> Some (Inr (keys @ nextPage), s2)) = Some (r, s')"
  by (cases r1) auto

lemma requests_shift:
  "f 0 # map (\<lambda>i. f (Suc i)) [0..<n] = map f [0..<Suc n]"
  by (simp only: map_Suc_upt [symmetric] upt_conv_Cons [of 0 "Suc n"] list.map) simp

text \<open>
  If one of the next \<open>k + 1\<close> answers ends the paging, the search returns, and its
  requests are those for consecutive pages, at most \<open>k + 1\<close> of them.
\<close>

lemma search_ends_within:
  "ends_within k c pn ps s \<Longrightarrow>
   \<exists>r s' n. intentTypeSearch c pn ps s = Some (r, s') \<and> 1 \<le> n \<and> n \<le> k + 1
     \<and> trace s' = trace s @ map (\<lambda>i. page_request (pn + int i) ps s) [0..<n]"
proof (induction k arbitrary: pn s)
  case 0
  then obtain r where "intentTypeSearch c pn ps s = Some (r, snd (fetch_page c pn ps s))"
    using search_ends [of ps c pn s] by auto
  moreover have "trace (snd (fetch_page c pn ps s))
      = trace s @ map (\<lambda>i. page_request (pn + int i) ps s) [0..<1]"
    by (simp add: fetch_page_trace)
  ultimately show ?case by (intro exI [of _ r] exI [of _ "snd (fetch_page c pn ps s)"] exI [of _ 1]) simp
next
  case (Suc k)
  let ?s1 = "snd (fetch_page c pn ps s)"
  show ?case
  proof (cases "ends_paging ps (fst (fetch_page c pn ps s))")
    case True
    then obtain r where "intentTypeSearch c pn ps s = Some (r, ?s1)"
      using search_ends [of ps c pn s] by auto
    moreover have "trace ?s1 = trace s @ map (\<lambda>i. page_request (pn + int i) ps s) [0..<1]"
      by (simp add: fetch_page_trace)
    ultimately show ?thesis by (intro exI [of _ r] exI [of _ ?s1] exI [of _ 1]) simp
  next
    case False
    with Suc.prems have "ends_within k c (pn + 1) ps ?s1" by simp
    then obtain r1 s' n where next_run: "intentTypeSearch c (pn + 1) ps ?s1 = Some (r1, s')"
      and n: "1 \<le> n" "n \<le> k + 1"
      and tr: "trace s' = trace ?s1 @ map (\<lambda>i. page_request (pn + 1 + int i) ps ?s1) [0..<n]"
      using Suc.IH by blast
    from False obtain keys where "intentTypeSearch c pn ps s =
       Option.bind (intentTypeSearch c (pn + 1) ps ?s1)
         (\<lambda>r. case r of
            (Inl err, s2) \<Rightarrow> Some (Inl (FetchingPaginatedIntentTypes err), s2)
          | (Inr nextPage, s2) \<Rightarrow> Some (Inr (keys @ nextPage), s2))"
      using search_goes_on by blast
    with next_run obtain r where run: "intentTypeSearch c pn ps s = Some (r, s')"
      using bind_wrap_of_Some [of r1 s' keys] by auto
    have same: "\<And>j. page_request j ps ?s1 = page_request j ps s"
      by (rule page_request_nsp) (rule fetch_page_nsp)
    have idx: "(\<lambda>i. page_request (pn + 1 + int i) ps ?s1)
        = (\<lambda>i. page_request (pn + int (Suc i)) ps s)"
      by (rule ext) (simp add: same add.assoc)
    have "trace s' = trace s @ page_request (pn + int 0) ps s
                       # map (\<lambda>i. page_request (pn + int (Suc i)) ps s) [0..<n]"
      unfolding tr idx by (simp add: fetch_page_trace)
    also have "page_request (pn + int 0) ps s # map (\<lambda>i. page_request (pn + int (Suc i)) ps s) [0..<n]
        = map (\<lambda>i. page_request (pn + int i) ps s) [0..<Suc n]"
      by (rule requests_shift)
    finally have "trace s' = trace s @ map (\<lambda>i. page_request (pn + int i) ps s) [0..<Suc n]" .
    with run n show ?thesis
      by (intro exI [of _ r] exI [of _ s'] exI [of _ "Suc n"]) simp
  qed
qed

text \<open>A search that returns has met an answer that ends the paging.\<close>

lemma search_returns_ends:
  assumes run: "intentTypeSearch c pn ps s = Some y"
  shows "\<exists>k. ends_within k c pn ps s"
proof (rule intentTypeSearch.raw_induct
    [where P = "\<lambda>c pn ps s y. \<exists>k. ends_within k c pn ps s", OF _ run])
  fix search c pn ps and s :: "'a srv" and y
  assume IH: "\<And>c pn ps s y. search c pn ps s = Some y \<Longrightarrow> \<exists>k. ends_within k c pn ps s"
    and eq: "(case makeHTTPRequest c ''POST'' (searchUrl (Ip (nsp s)))
             (SearchPayload \<lparr>PageNumber = pn, PageSize = ps\<rparr>) s of
        (Inl err, s1) \<Rightarrow> Some (Inl (FetchingIntentTypes err), s1)
      | (Inr resp, s1) \<Rightarrow>
          if StatusCode resp \<noteq> 200 then Some (Inl (FetchingIntentTypesStatus (StatusCode resp)), s1)
          else
            (case Body_IntentTypeList resp of
               None \<Rightarrow> Some (Inl DecodingIntentTypeSearchResponse, s1)
             | Some intentTypeList \<Rightarrow>
                 let intentTypes = map intentTypeKey (Output_IntentType intentTypeList) in
                 if Output_PageSize intentTypeList = ps
                    \<and> Output_TotalCount intentTypeList > ps
                 then
                   Option.bind (search c (pn + 1) ps s1)
                     (\<lambda>r. case r of
                        (Inl err, s2) \<Rightarrow> Some (Inl (FetchingPaginatedIntentTypes err), s2)
                      | (Inr nextPage, s2) \<Rightarrow> Some (Inr (intentTypes @ nextPage), s2))
                 else Some (Inr intentTypes, s1))) = Some y"
  show "\<exists>k. ends_within k c pn ps s"
  proof (cases "ends_paging ps (fst (fetch_page c pn ps s))")
    case True
    then have "ends_within 0 c pn ps s" by simp
    then show ?thesis ..
  next
    case False
    then obtain resp l where f: "fst (fetch_page c pn ps s) = Inr resp" "StatusCode resp = 200"
      "Body_IntentTypeList resp = Some l" "fetches_next ps l"
      by (auto simp: ends_paging_def split: sum.splits option.splits if_splits)
    obtain s1 where s1: "fetch_page c pn ps s = (Inr resp, s1)"
      using f(1) by (cases "fetch_page c pn ps s") simp
    from s1 have "makeHTTPRequest c ''POST'' (searchUrl (Ip (nsp s)))
             (SearchPayload \<lparr>PageNumber = pn, PageSize = ps\<rparr>) s = (Inr resp, s1)"
      by (simp add: fetch_page_def)
    with eq f have "\<exists>y1. search c (pn + 1) ps s1 = Some y1"
      by (cases "search c (pn + 1) ps s1") (simp_all add: fetches_next_def)
    then obtain k where "ends_within k c (pn + 1) ps s1" using IH by blast
    with s1 have "ends_within (Suc k) c pn ps s" by simp
    then show ?thesis ..
  qed
qed

lemma search_never_ends:
  "(\<And>k. \<not> ends_within k c pn ps s) \<Longrightarrow> intentTypeSearch c pn ps s = None"
  using search_returns_ends [of c pn ps s] by (cases "intentTypeSearch c pn ps s") auto

lemma search_first_request:
  assumes "intentTypeSearch c pn ps s = Some (r, s')"
  shows "\<exists>rest. trace s' = trace s @ page_request pn ps s # rest"
proof -
  from assms obtain k where "ends_within k c pn ps s" using search_returns_ends by blast
  then obtain r1 s1 n where "intentTypeSearch c pn ps s = Some (r1, s1)" and n: "1 \<le> n"
    and tr: "trace s1 = trace s @ map (\<lambda>i. page_request (pn + int i) ps s) [0..<n]"
    using search_ends_within by blast
  with assms have s1: "s1 = s'" by simp
  from n obtain m where "n = Suc m" by (cases n) auto
  with tr s1 show ?thesis by (simp add: upt_conv_Cons del: upt_Suc)
qed

section \<open>The search against the platforms\<close>

lemma fetch_catalog:
  "fst (fetch_page (catalog_platform ds) k P s)
     = Inr (catalog_response ds \<lparr>PageNumber = k, PageSize = P\<rparr>)"
  by (simp add: fetch_page_def makeHTTPRequest_def catalog_platform_def)

lemma fetch_catalog_state:
  "snd (fetch_page (catalog_platform ds) k P s) = s\<lparr>trace := trace s @ [page_request k P s]\<rparr>"
  by (simp add: fetch_page_def makeHTTPRequest_def catalog_platform_def page_request_def)

lemma catalog_page_whole:
  "\<not> fetches_next P \<lparr>Output_PageSize = int (length (take (nat P) xs)),
                     Output_TotalCount = int (length ds), Output_IntentType = ys\<rparr>
   \<Longrightarrow> length xs \<le> length ds \<Longrightarrow> 0 < P \<Longrightarrow> take (nat P) xs = xs"
  by (auto simp: fetches_next_def min_def split: if_splits)

lemma catalog_search:
  assumes P: "0 < P"
  shows "0 \<le> k \<Longrightarrow>
    \<exists>s'. intentTypeSearch (catalog_platform ds) k P s
            = Some (Inr (map intentTypeKey (drop (nat k * nat P) ds)), s')"
proof (induction "length ds - nat k * nat P" arbitrary: k s rule: less_induct)
  case less
  let ?xs = "drop (nat k * nat P) ds"
  let ?page = "take (nat P) ?xs"
  let ?l = "\<lparr>Output_PageSize = int (length ?page), Output_TotalCount = int (length ds),
             Output_IntentType = ?page\<rparr>"
  let ?resp = "catalog_response ds \<lparr>PageNumber = k, PageSize = P\<rparr>"
  let ?s1 = "snd (fetch_page (catalog_platform ds) k P s)"
  have f: "fst (fetch_page (catalog_platform ds) k P s) = Inr ?resp" by (rule fetch_catalog)
  have st: "StatusCode ?resp = 200" and body: "Body_IntentTypeList ?resp = Some ?l"
    by (simp_all add: catalog_response_def page_of_def)
  show ?case
  proof (cases "fetches_next P ?l")
    case True
    then have full: "length ?page = nat P" using P by (auto simp: fetches_next_def)
    then have room: "nat P \<le> length ds - nat k * nat P" by (simp add: min_def split: if_splits)
    have pos: "0 < nat P" using P by simp
    have next_k: "nat (k + 1) * nat P = nat k * nat P + nat P"
      using less.prems by (simp add: nat_add_distrib)
    from room pos have "length ds - (nat k * nat P + nat P) < length ds - nat k * nat P"
      by linarith
    then have "length ds - nat (k + 1) * nat P < length ds - nat k * nat P"
      by (simp only: next_k)
    moreover have "0 \<le> k + 1" using less.prems by simp
    ultimately obtain s' where run: "intentTypeSearch (catalog_platform ds) (k + 1) P ?s1
        = Some (Inr (map intentTypeKey (drop (nat (k + 1) * nat P) ds)), s')"
      using less.hyps by blast
    have "?page @ drop (nat (k + 1) * nat P) ds = ?xs"
      unfolding next_k by (simp add: add.commute drop_drop [symmetric] del: drop_drop)
    then have "map intentTypeKey ?page @ map intentTypeKey (drop (nat (k + 1) * nat P) ds)
        = map intentTypeKey ?xs"
      by (simp only: map_append [symmetric])
    with run search_next_page [OF f st body True] show ?thesis by simp
  next
    case False
    then have "ends_paging P (Inr ?resp)" using st body by (simp add: ends_paging_def)
    from search_last_page [OF f this]
    have "intentTypeSearch (catalog_platform ds) k P s = Some (Inr (map intentTypeKey ?page), ?s1)"
      using st body by simp
    moreover have "?page = ?xs"
      using False P by (intro catalog_page_whole [of P ?xs ds ?page]) simp_all
    ultimately show ?thesis by simp
  qed
qed

lemma endless_never_ends: "\<not> ends_within k endless_platform pn ps s"
proof (induction k arbitrary: pn s)
  case 0
  show ?case
    by (simp add: fetch_page_def makeHTTPRequest_def endless_platform_def ends_paging_def
        fetches_next_def)
next
  case (Suc k)
  have "\<not> ends_paging ps (fst (fetch_page endless_platform pn ps s))"
    by (simp add: fetch_page_def makeHTTPRequest_def endless_platform_def ends_paging_def
        fetches_next_def)
  with Suc.IH show ?case by simp
qed

lemma catalog7_ends:
  "ends_within 2 (catalog_platform (catalog [1, 2, 3, 4, 5, 6, 7])) 0 3 no_session"
  by (simp add: numeral_2_eq_2 fetch_catalog fetch_catalog_state ends_paging_def
      catalog_response_def page_of_def catalog_def fetches_next_def)

lemma catalog6_run:
  "intentTypeSearch (catalog_platform (catalog [1, 2, 3, 4, 5, 6])) 0 3 no_session
     = Some (Inr [''foo_bar_1'', ''foo_bar_2'', ''foo_bar_3'', ''foo_bar_4'', ''foo_bar_5'', ''foo_bar_6''],
             no_session\<lparr>trace := [page_request 0 3 no_session, page_request 1 3 no_session,
                                    page_request 2 3 no_session]\<rparr>)"
  apply (subst search_unfold)
  apply (subst search_unfold)
  apply (subst search_unfold)
  apply (simp add: fetch_page_def makeHTTPRequest_def catalog_platform_def catalog_response_def
      page_of_def catalog_def fetches_next_def intentTypeKey_def fmt_d_def digit_char_def
      page_request_def no_session_def)
  done

lemma catalog2_run:
  "intentTypeSearch (catalog_platform (catalog [1, 2])) 0 300 no_session
     = Some (Inr [''foo_bar_1'', ''foo_bar_2''],
             no_session\<lparr>trace := [page_request 0 300 no_session]\<rparr>)"
  apply (subst search_unfold)
  apply (simp add: fetch_page_def makeHTTPRequest_def catalog_platform_def catalog_response_def
      page_of_def catalog_def fetches_next_def intentTypeKey_def fmt_d_def digit_char_def
      page_request_def no_session_def)
  done

lemma foo_bar_2_split: "splitIntentType ''foo_bar_2'' = Inr (''foo_bar'', ''2'')"
  using splitIntentType_key [of "''2''" "''foo_bar''"] by simp

text \<open>The decimal text of a number determines the number, and the key determines the pair.\<close>

lemma digit_char_inj: "d < 10 \<Longrightarrow> e < 10 \<Longrightarrow> digit_char d = digit_char e \<Longrightarrow> d = e"
proof -
  assume "d < 10" "e < 10"
  then have "d \<in> {0, 1, 2, 3, 4, 5, 6, 7, 8, 9}" "e \<in> {0, 1, 2, 3, 4, 5, 6, 7, 8, 9}" by auto
  moreover assume "digit_char d = digit_char e"
  ultimately show ?thesis by (auto simp: digit_char_def)
qed

lemma digit_char_not_minus: "d < 10 \<Longrightarrow> digit_char d \<noteq> CHR ''-''"
proof -
  assume "d < 10"
  then have "d \<in> {0, 1, 2, 3, 4, 5, 6, 7, 8, 9}" by auto
  then show ?thesis by (auto simp: digit_char_def)
qed

lemma dec_nat_small: "n < 10 \<Longrightarrow> dec_nat n = [digit_char n]"
  by simp

lemma dec_nat_big: "\<not> n < 10 \<Longrightarrow> dec_nat n = dec_nat (n div 10) @ [digit_char (n mod 10)]"
  by (subst dec_nat.simps) simp

lemma dec_nat_not_Nil: "dec_nat n \<noteq> []"
  by (cases "n < 10") (simp_all add: dec_nat_small dec_nat_big del: dec_nat.simps)

lemma dec_nat_hd_not_minus: "hd (dec_nat n) \<noteq> CHR ''-''"
proof (induction n rule: dec_nat.induct)
  case (1 n)
  show ?case
  proof (cases "n < 10")
    case True
    then show ?thesis using digit_char_not_minus [of n] by simp
  next
    case False
    with "1.IH" show ?thesis
      by (simp add: dec_nat_big dec_nat_not_Nil del: dec_nat.simps)
  qed
qed

lemma dec_nat_inj: "dec_nat m = dec_nat n \<Longrightarrow> m = n"
proof (induction m arbitrary: n rule: dec_nat.induct)
  case (1 m)
  show ?case
  proof (cases "m < 10")
    case m: True
    show ?thesis
    proof (cases "n < 10")
      case True
      with m "1.prems" show ?thesis using digit_char_inj [of m n] by simp
    next
      case False
      with m "1.prems" have "dec_nat (n div 10) = []"
        by (simp add: dec_nat_small dec_nat_big del: dec_nat.simps)
      then show ?thesis by (simp add: dec_nat_not_Nil del: dec_nat.simps)
    qed
  next
    case m: False
    show ?thesis
    proof (cases "n < 10")
      case True
      with m "1.prems" have "dec_nat (m div 10) = []"
        by (simp add: dec_nat_small dec_nat_big del: dec_nat.simps)
      then show ?thesis by (simp add: dec_nat_not_Nil del: dec_nat.simps)
    next
      case False
      with m "1.prems" have eq: "dec_nat (m div 10) = dec_nat (n div 10)"
        and d: "digit_char (m mod 10) = digit_char (n mod 10)"
        by (simp_all add: dec_nat_big del: dec_nat.simps)
      from eq have "m div 10 = n div 10" using m by (rule "1.IH" [rotated])
      moreover from d have "m mod 10 = n mod 10" by (intro digit_char_inj) simp_all
      ultimately show ?thesis by (metis div_mult_mod_eq)
    qed
  qed
qed

lemma fmt_d_inj: "fmt_d i = fmt_d j \<Longrightarrow> i = j"
proof -
  assume eq: "fmt_d i = fmt_d j"
  have neg_pos: "\<And>a b. CHR ''-'' # dec_nat a \<noteq> dec_nat b"
  proof
    fix a b
    assume "CHR ''-'' # dec_nat a = dec_nat b"
    then have "hd (dec_nat b) = CHR ''-''" by (metis list.sel(1))
    then show False by (simp add: dec_nat_hd_not_minus del: dec_nat.simps)
  qed
  show ?thesis
  proof (cases "i < 0")
    case i: True
    show ?thesis
    proof (cases "j < 0")
      case True
      with i eq have "dec_nat (nat (- i)) = dec_nat (nat (- j))"
        by (simp add: fmt_d_def del: dec_nat.simps)
      then have "nat (- i) = nat (- j)" by (rule dec_nat_inj)
      with i True show ?thesis by simp
    next
      case False
      with i eq neg_pos [of "nat (- i)" "nat j"] show ?thesis
        by (simp add: fmt_d_def del: dec_nat.simps)
    qed
  next
    case i: False
    show ?thesis
    proof (cases "j < 0")
      case True
      with i eq neg_pos [of "nat (- j)" "nat i"] show ?thesis
        by (simp add: fmt_d_def del: dec_nat.simps)
    next
      case False
      with i eq have "dec_nat (nat i) = dec_nat (nat j)"
        by (simp add: fmt_d_def del: dec_nat.simps)
      then have "nat i = nat j" by (rule dec_nat_inj)
      with i False show ?thesis by simp
    qed
  qed
qed

lemma intentTypeKey_inj: "intentTypeKey a = intentTypeKey b \<Longrightarrow> a = b"
proof -
  assume eq: "intentTypeKey a = intentTypeKey b"
  have "splitIntentType (intentTypeKey a) = Inr (Name a, fmt_d (Version a))"
    and "splitIntentType (intentTypeKey b) = Inr (Name b, fmt_d (Version b))"
    unfolding intentTypeKey_def by (rule splitIntentType_key, rule fmt_d_no_underscore)+
  with eq have "Name a = Name b" and "fmt_d (Version a) = fmt_d (Version b)" by simp_all
  then have "Name a = Name b" and "Version a = Version b" by (simp_all add: fmt_d_inj)
  then show ?thesis by simp
qed

lemma distinct_keys: "distinct ds \<Longrightarrow> distinct (map intentTypeKey ds)"
  by (simp add: distinct_map inj_on_def intentTypeKey_inj)

section \<open>Termination of the search\<close>

text \<open>
  C1, as the code has it. \<^verbatim>\<open>intentTypeSearch\<close> has no bound of its own on the number of
  pages. If one of the answers to the pages \<open>pageNumber, \<dots>, pageNumber + k\<close> ends the
  paging (a transport error, a status other than 200, a body that does not decode, a
  reported page-size other than the requested one, or a total-count not above the requested
  size), the search returns after at least one and at most \<open>k + 1\<close> fetches, of consecutive
  pages. If no answer ever ends the paging, the search does not return. So it returns
  exactly when some answer ends the paging.
\<close>

theorem C1_search_ends_only_with_the_paging:
  "(ends_within k c pn ps s \<longrightarrow>
      (\<exists>r s' n. intentTypeSearch c pn ps s = Some (r, s') \<and> 1 \<le> n \<and> n \<le> k + 1
         \<and> trace s' = trace s @ map (\<lambda>i. page_request (pn + int i) ps s) [0..<n]))
   \<and> ((\<forall>j. \<not> ends_within j c pn ps s) \<longrightarrow> intentTypeSearch c pn ps s = None)
   \<and> ((\<exists>y. intentTypeSearch c pn ps s = Some y) = (\<exists>j. ends_within j c pn ps s))"
proof -
  have "(\<exists>y. intentTypeSearch c pn ps s = Some y) = (\<exists>j. ends_within j c pn ps s)"
    using search_returns_ends [of c pn ps s] search_ends_within [of _ c pn ps s] by blast
  then show ?thesis
    using search_ends_within [of k c pn ps s] search_never_ends [of c pn ps s] by blast
qed

text \<open>
  C1 as the code has it: the catalog of seven served in pages of three ends the paging
  with its third answer, and the search returns after at most three fetches; the platform
  that misreports never ends it.
\<close>

theorem C1_witness:
  "ends_within 2 (catalog_platform (catalog [1, 2, 3, 4, 5, 6, 7])) 0 3 no_session
   \<and> (\<exists>r s' n. intentTypeSearch (catalog_platform (catalog [1, 2, 3, 4, 5, 6, 7])) 0 3 no_session
                  = Some (r, s') \<and> 1 \<le> n \<and> n \<le> 3
         \<and> trace s' = map (\<lambda>i. page_request (int i) 3 no_session) [0..<n])
   \<and> (\<forall>j. \<not> ends_within j endless_platform 0 7 no_session)
   \<and> intentTypeSearch endless_platform 0 7 no_session = None"
proof -
  have never: "\<forall>j. \<not> ends_within j endless_platform 0 7 no_session"
    by (simp add: endless_never_ends)
  have t: "trace no_session = []" by (simp add: no_session_def)
  from catalog7_ends
    C1_search_ends_only_with_the_paging
      [of 2 "catalog_platform (catalog [1, 2, 3, 4, 5, 6, 7])" 0 3 no_session]
  have "\<exists>r s' n. intentTypeSearch (catalog_platform (catalog [1, 2, 3, 4, 5, 6, 7])) 0 3 no_session
                  = Some (r, s') \<and> 1 \<le> n \<and> n \<le> 2 + 1
         \<and> trace s' = trace no_session @ map (\<lambda>i. page_request (0 + int i) 3 no_session) [0..<n]"
    by blast
  then have a: "\<exists>r s' n. intentTypeSearch (catalog_platform (catalog [1, 2, 3, 4, 5, 6, 7])) 0 3 no_session
                  = Some (r, s') \<and> 1 \<le> n \<and> n \<le> 3
         \<and> trace s' = map (\<lambda>i. page_request (int i) 3 no_session) [0..<n]"
    by (simp add: t)
  from never C1_search_ends_only_with_the_paging [of _ endless_platform 0 7 no_session]
  have "intentTypeSearch endless_platform 0 7 no_session = None" by blast
  with catalog7_ends a never show ?thesis by blast
qed

text \<open>
  C1 as stated fails. Against the platform that reports a full page and a larger
  total-count every time, the search started by the \<^verbatim>\<open>list\<close> handler (page 0, page size
  300) never returns: no number of fetches is its last.
\<close>

theorem C1_counterexample: "intentTypeSearch endless_platform 0 300 no_session = None"
  by (rule search_never_ends) (rule endless_never_ends)

section \<open>The test for the next page\<close>

text \<open>
  C2, as the code has it. For every page answered with status 200 and a body that
  decodes, the search fetches the next page if and only if the reported page-size equals
  the requested page size and the reported total-count is greater than the requested page
  size; otherwise it stops and returns the keys of this page, which the callers above it
  append to theirs. In a run that returns, the request for the next page follows the
  request for this one exactly when the test holds.
\<close>

theorem C2_next_page_test:
  assumes "fst (fetch_page c pn ps s) = Inr resp"
    and "StatusCode resp = 200"
    and "Body_IntentTypeList resp = Some l"
  shows "intentTypeSearch c pn ps s =
     (if Output_PageSize l = ps \<and> Output_TotalCount l > ps
      then Option.bind (intentTypeSearch c (pn + 1) ps (snd (fetch_page c pn ps s)))
             (\<lambda>r. case r of
                (Inl err, s2) \<Rightarrow> Some (Inl (FetchingPaginatedIntentTypes err), s2)
              | (Inr nextPage, s2) \<Rightarrow>
                  Some (Inr (map intentTypeKey (Output_IntentType l) @ nextPage), s2))
      else Some (Inr (map intentTypeKey (Output_IntentType l)), snd (fetch_page c pn ps s)))
   \<and> (\<forall>r s'. intentTypeSearch c pn ps s = Some (r, s') \<longrightarrow>
         (Output_PageSize l = ps \<and> Output_TotalCount l > ps)
           = (\<exists>rest. trace s' = trace s @ page_request pn ps s # page_request (pn + 1) ps s # rest))"
proof -
  let ?s1 = "snd (fetch_page c pn ps s)"
  have eq: "intentTypeSearch c pn ps s =
     (if Output_PageSize l = ps \<and> Output_TotalCount l > ps
      then Option.bind (intentTypeSearch c (pn + 1) ps ?s1)
             (\<lambda>r. case r of
                (Inl err, s2) \<Rightarrow> Some (Inl (FetchingPaginatedIntentTypes err), s2)
              | (Inr nextPage, s2) \<Rightarrow>
                  Some (Inr (map intentTypeKey (Output_IntentType l) @ nextPage), s2))
      else Some (Inr (map intentTypeKey (Output_IntentType l)), ?s1))"
  proof (cases "fetches_next ps l")
    case True
    from search_next_page [OF assms True] True show ?thesis by (simp add: fetches_next_def)
  next
    case False
    then have "ends_paging ps (Inr resp)" using assms by (simp add: ends_paging_def)
    from search_last_page [OF assms(1) this] False assms show ?thesis
      by (auto simp: fetches_next_def)
  qed
  have "(Output_PageSize l = ps \<and> Output_TotalCount l > ps)
      = (\<exists>rest. trace s' = trace s @ page_request pn ps s # page_request (pn + 1) ps s # rest)"
    if run: "intentTypeSearch c pn ps s = Some (r, s')" for r s'
  proof (cases "Output_PageSize l = ps \<and> Output_TotalCount l > ps")
    case True
    with eq run obtain r1 where "intentTypeSearch c (pn + 1) ps ?s1 = Some (r1, s')"
      using bind_wrap_Some [of "intentTypeSearch c (pn + 1) ps ?s1"
          "map intentTypeKey (Output_IntentType l)" r s']
      by auto
    then obtain rest where "trace s' = trace ?s1 @ page_request (pn + 1) ps ?s1 # rest"
      using search_first_request by blast
    moreover have "page_request (pn + 1) ps ?s1 = page_request (pn + 1) ps s"
      by (rule page_request_nsp) (rule fetch_page_nsp)
    ultimately have "trace s' = trace s @ page_request pn ps s # page_request (pn + 1) ps s # rest"
      by (simp add: fetch_page_trace)
    with True show ?thesis by blast
  next
    case False
    with eq run have "s' = ?s1" by simp
    then have "trace s' = trace s @ [page_request pn ps s]" by (simp add: fetch_page_trace)
    with False show ?thesis by simp
  qed
  with eq show ?thesis by blast
qed

text \<open>C2 as the code has it, at the first page of the catalog of six served in pages of three.\<close>

theorem C2_witness:
  "fst (fetch_page (catalog_platform (catalog [1, 2, 3, 4, 5, 6])) 0 3 no_session)
     = Inr (catalog_response (catalog [1, 2, 3, 4, 5, 6]) \<lparr>PageNumber = 0, PageSize = 3\<rparr>)
   \<and> StatusCode (catalog_response (catalog [1, 2, 3, 4, 5, 6]) \<lparr>PageNumber = 0, PageSize = 3\<rparr>) = 200
   \<and> Body_IntentTypeList (catalog_response (catalog [1, 2, 3, 4, 5, 6]) \<lparr>PageNumber = 0, PageSize = 3\<rparr>)
       = Some \<lparr>Output_PageSize = 3, Output_TotalCount = 6, Output_IntentType = catalog [1, 2, 3]\<rparr>
   \<and> (\<exists>rest. [page_request 0 3 no_session, page_request 1 3 no_session, page_request 2 3 no_session]
         = page_request 0 3 no_session # page_request 1 3 no_session # rest)"
proof -
  let ?c = "catalog_platform (catalog [1, 2, 3, 4, 5, 6])"
  let ?resp = "catalog_response (catalog [1, 2, 3, 4, 5, 6]) \<lparr>PageNumber = 0, PageSize = 3\<rparr>"
  let ?l = "\<lparr>Output_PageSize = 3, Output_TotalCount = 6, Output_IntentType = catalog [1, 2, 3]\<rparr>"
  have f: "fst (fetch_page ?c 0 3 no_session) = Inr ?resp" by (rule fetch_catalog)
  have st: "StatusCode ?resp = 200" by (simp add: catalog_response_def)
  have body: "Body_IntentTypeList ?resp = Some ?l"
    by (simp add: catalog_response_def page_of_def catalog_def)
  have t: "trace no_session = []" by (simp add: no_session_def)
  from C2_next_page_test [OF f st body] catalog6_run
  have "(Output_PageSize ?l = 3 \<and> Output_TotalCount ?l > 3)
      = (\<exists>rest. trace (no_session\<lparr>trace := [page_request 0 3 no_session, page_request 1 3 no_session,
                                    page_request 2 3 no_session]\<rparr>)
           = trace no_session @ page_request 0 3 no_session # page_request (0 + 1) 3 no_session # rest)"
    by blast
  then have "\<exists>rest. [page_request 0 3 no_session, page_request 1 3 no_session, page_request 2 3 no_session]
         = page_request 0 3 no_session # page_request 1 3 no_session # rest"
    by (simp add: t)
  with f st body show ?thesis by blast
qed

text \<open>
  C2 as stated fails. The catalog of six is served in pages of three. The answer to page 1
  reports page-size 3 and total-count 6 when the running total fetched is 3 + 3 = 6, which
  is not less than the total-count: the rule of the specification stops there. The code
  sends a third request, for page 2.
\<close>

theorem C2_counterexample:
  "intentTypeSearch (catalog_platform (catalog [1, 2, 3, 4, 5, 6])) 0 3 no_session
     = Some (Inr [''foo_bar_1'', ''foo_bar_2'', ''foo_bar_3'', ''foo_bar_4'', ''foo_bar_5'', ''foo_bar_6''],
             no_session\<lparr>trace := [page_request 0 3 no_session, page_request 1 3 no_session,
                                    page_request 2 3 no_session]\<rparr>)
   \<and> Body_IntentTypeList (catalog_response (catalog [1, 2, 3, 4, 5, 6]) \<lparr>PageNumber = 1, PageSize = 3\<rparr>)
       = Some \<lparr>Output_PageSize = 3, Output_TotalCount = 6, Output_IntentType = catalog [4, 5, 6]\<rparr>
   \<and> \<not> spec_fetches_next 3 (3 + 3)
         \<lparr>Output_PageSize = 3, Output_TotalCount = 6, Output_IntentType = catalog [4, 5, 6]\<rparr>"
  using catalog6_run
  by (simp add: catalog_response_def page_of_def catalog_def spec_fetches_next_def)

section \<open>The search returns the whole catalog\<close>

lemma echo_never_ends:
  "P < int (length ds) \<Longrightarrow> \<not> ends_within k (echo_platform ds) pn P s"
proof (induction k arbitrary: pn s)
  case 0
  then show ?case
    by (simp add: fetch_page_def makeHTTPRequest_def echo_platform_def ends_paging_def
        fetches_next_def)
next
  case (Suc k)
  from Suc.prems have "\<not> ends_paging P (fst (fetch_page (echo_platform ds) pn P s))"
    by (simp add: fetch_page_def makeHTTPRequest_def echo_platform_def ends_paging_def
        fetches_next_def)
  with Suc show ?case by simp
qed

lemma echo_one_page:
  assumes "int (length ds) \<le> P"
  shows "\<exists>s'. intentTypeSearch (echo_platform ds) 0 P s = Some (Inr (map intentTypeKey ds), s')"
proof -
  let ?l = "\<lparr>Output_PageSize = P, Output_TotalCount = int (length ds),
             Output_IntentType = page_of ds \<lparr>PageNumber = 0, PageSize = P\<rparr>\<rparr>"
  let ?resp = "\<lparr>StatusCode = 200, Body_IntentTypeList = Some ?l, Body_IntentTypeDefinition = None\<rparr>"
  have f: "fst (fetch_page (echo_platform ds) 0 P s) = Inr ?resp"
    by (simp add: fetch_page_def makeHTTPRequest_def echo_platform_def)
  have "\<not> fetches_next P ?l" using assms by (simp add: fetches_next_def)
  then have "ends_paging P (Inr ?resp)" by (simp add: ends_paging_def)
  from search_last_page [OF f this]
  have "intentTypeSearch (echo_platform ds) 0 P s
      = Some (Inr (map intentTypeKey (page_of ds \<lparr>PageNumber = 0, PageSize = P\<rparr>)),
              snd (fetch_page (echo_platform ds) 0 P s))"
    by simp
  moreover have "page_of ds \<lparr>PageNumber = 0, PageSize = P\<rparr> = ds"
    using assms by (simp add: page_of_def)
  ultimately show ?thesis by simp
qed

lemma size_zero_never_ends:
  "ds \<noteq> [] \<Longrightarrow> \<not> ends_within k (catalog_platform ds) pn 0 s"
proof (induction k arbitrary: pn s)
  case 0
  then show ?case
    by (simp add: fetch_catalog ends_paging_def catalog_response_def page_of_def fetches_next_def)
next
  case (Suc k)
  from Suc.prems have "\<not> ends_paging 0 (fst (fetch_page (catalog_platform ds) pn 0 s))"
    by (simp add: fetch_catalog ends_paging_def catalog_response_def page_of_def fetches_next_def)
  with Suc show ?case by simp
qed

text \<open>
  C3, as the code has it. A platform holds a catalog of \<open>N\<close> distinct intent types and
  serves it in order in pages of size \<open>P\<close>, with \<open>N\<close> as total-count. When it reports the
  number of pairs on each page as page-size, then for every page size \<open>P\<close> of at least 1
  \<^verbatim>\<open>intentTypeSearch\<close> started at page 0 returns the keys \<^verbatim>\<open>name_version\<close> of the catalog
  in order: \<open>N\<close> keys, each element of the catalog once. When it reports the requested size
  as page-size on every page, the search returns these keys if \<open>N\<close> is at most \<open>P\<close>, and
  does not return if \<open>N\<close> is greater than \<open>P\<close>.
\<close>

theorem C3_search_returns_every_key_once:
  assumes "0 < P"
    and "distinct ds"
  shows "(\<exists>s'. intentTypeSearch (catalog_platform ds) 0 P s = Some (Inr (map intentTypeKey ds), s'))
     \<and> length (map intentTypeKey ds) = length ds
     \<and> distinct (map intentTypeKey ds)
     \<and> (int (length ds) \<le> P \<longrightarrow>
          (\<exists>s'. intentTypeSearch (echo_platform ds) 0 P s = Some (Inr (map intentTypeKey ds), s')))
     \<and> (P < int (length ds) \<longrightarrow> intentTypeSearch (echo_platform ds) 0 P s = None)"
proof -
  have "intentTypeSearch (echo_platform ds) 0 P s = None" if "P < int (length ds)"
    by (rule search_never_ends) (rule echo_never_ends [OF that])
  then show ?thesis
    using catalog_search [OF assms(1), of 0 ds s] distinct_keys [OF assms(2)]
      echo_one_page [of ds P s]
    by simp
qed

text \<open>
  C3 as the code has it, at a catalog of seven and pages of three (pages of sizes 3, 3 and
  1) with the number of pairs reported; and with the requested size reported, at a catalog
  of two within one page of three and at a catalog of four.
\<close>

theorem C3_witness:
  "(0::int) < 3
   \<and> distinct (catalog [1, 2, 3, 4, 5, 6, 7])
   \<and> (\<exists>s'. intentTypeSearch (catalog_platform (catalog [1, 2, 3, 4, 5, 6, 7])) 0 3 no_session
        = Some (Inr [''foo_bar_1'', ''foo_bar_2'', ''foo_bar_3'', ''foo_bar_4'', ''foo_bar_5'',
                     ''foo_bar_6'', ''foo_bar_7''], s'))
   \<and> distinct (catalog [1, 2])
   \<and> (\<exists>s'. intentTypeSearch (echo_platform (catalog [1, 2])) 0 3 no_session
        = Some (Inr [''foo_bar_1'', ''foo_bar_2''], s'))
   \<and> distinct (catalog [1, 2, 3, 4])
   \<and> intentTypeSearch (echo_platform (catalog [1, 2, 3, 4])) 0 3 no_session = None"
proof -
  have p: "(0::int) < 3" by simp
  have d: "distinct (catalog [1, 2, 3, 4, 5, 6, 7])" by (simp add: catalog_def)
  have d2: "distinct (catalog [1, 2])" by (simp add: catalog_def)
  have d4: "distinct (catalog [1, 2, 3, 4])" by (simp add: catalog_def)
  have keys: "map intentTypeKey (catalog [1, 2, 3, 4, 5, 6, 7])
      = [''foo_bar_1'', ''foo_bar_2'', ''foo_bar_3'', ''foo_bar_4'', ''foo_bar_5'',
         ''foo_bar_6'', ''foo_bar_7'']"
    by (simp add: catalog_def intentTypeKey_def fmt_d_def digit_char_def)
  have keys2: "map intentTypeKey (catalog [1, 2]) = [''foo_bar_1'', ''foo_bar_2'']"
    by (simp add: catalog_def intentTypeKey_def fmt_d_def digit_char_def)
  have l2: "int (length (catalog [1, 2])) \<le> 3" by (simp add: catalog_def)
  have l4: "3 < int (length (catalog [1, 2, 3, 4]))" by (simp add: catalog_def)
  from C3_search_returns_every_key_once [OF p d, of no_session] keys
  have a: "\<exists>s'. intentTypeSearch (catalog_platform (catalog [1, 2, 3, 4, 5, 6, 7])) 0 3 no_session
        = Some (Inr [''foo_bar_1'', ''foo_bar_2'', ''foo_bar_3'', ''foo_bar_4'', ''foo_bar_5'',
                     ''foo_bar_6'', ''foo_bar_7''], s')"
    by simp
  from C3_search_returns_every_key_once [OF p d2, of no_session] l2 keys2
  have b: "\<exists>s'. intentTypeSearch (echo_platform (catalog [1, 2])) 0 3 no_session
        = Some (Inr [''foo_bar_1'', ''foo_bar_2''], s')"
    by simp
  from C3_search_returns_every_key_once [OF p d4, of no_session] l4
  have c: "intentTypeSearch (echo_platform (catalog [1, 2, 3, 4])) 0 3 no_session = None"
    by blast
  from p d a d2 b d4 c show ?thesis by blast
qed

text \<open>
  C3 as stated fails. The catalog of seven is served in order in pages of three, of sizes
  3, 3 and 1. When the platform reports the requested size 3 as page-size on every page,
  the test of line 80 holds for every answer (3 = 3 and 7 > 3) and the search from page 0
  never returns. And with the page size 0, against the platform that reports the number of
  pairs, every page is empty and the test holds as well (0 = 0 and 7 > 0): the search never
  returns.
\<close>

theorem C3_counterexample:
  "map (\<lambda>k. length (page_of (catalog [1, 2, 3, 4, 5, 6, 7]) \<lparr>PageNumber = k, PageSize = 3\<rparr>))
       [0, 1, 2] = [3, 3, 1]
   \<and> intentTypeSearch (echo_platform (catalog [1, 2, 3, 4, 5, 6, 7])) 0 3 no_session = None
   \<and> intentTypeSearch (catalog_platform (catalog [1, 2, 3, 4, 5, 6, 7])) 0 0 no_session = None"
proof -
  have "map (\<lambda>k. length (page_of (catalog [1, 2, 3, 4, 5, 6, 7]) \<lparr>PageNumber = k, PageSize = 3\<rparr>))
       [0, 1, 2] = [3, 3, 1]"
    by (simp add: page_of_def catalog_def)
  moreover have "intentTypeSearch (echo_platform (catalog [1, 2, 3, 4, 5, 6, 7])) 0 3 no_session = None"
    by (rule search_never_ends) (rule echo_never_ends, simp add: catalog_def)
  moreover have "intentTypeSearch (catalog_platform (catalog [1, 2, 3, 4, 5, 6, 7])) 0 0 no_session
      = None"
    by (rule search_never_ends) (rule size_zero_never_ends, simp add: catalog_def)
  ultimately show ?thesis by blast
qed

section \<open>The search and the module fetch without a session\<close>

text \<open>
  C4, as the code has it. Neither function looks at the session: in every state of
  \<^verbatim>\<open>s.nsp\<close>, a disconnected one included, \<^verbatim>\<open>intentTypeSearch\<close> sends the request for
  its page before anything else, and \<^verbatim>\<open>intentTypeYangModules\<close>, given a key with an
  underscore, sends its one GET request. They fail when the transport fails, with the
  fetch error that carries the transport's error.
\<close>

theorem C4_transport_is_called_in_every_session_state:
  "(\<forall>r s'. intentTypeSearch c pn ps s = Some (r, s') \<longrightarrow>
       (\<exists>rest. trace s' = trace s @ page_request pn ps s # rest))
   \<and> (\<forall>err. fst (fetch_page c pn ps s) = Inl err \<longrightarrow>
         intentTypeSearch c pn ps s
           = Some (Inl (FetchingIntentTypes err), snd (fetch_page c pn ps s)))
   \<and> (\<forall>name version. splitIntentType key = Inr (name, version) \<longrightarrow>
         trace (snd (intentTypeYangModules c key s))
           = trace s @ [HTTPRequest ''GET'' (yangModulesUrl (Ip (nsp s)) name version) NoBody]
         \<and> (\<forall>err. fst (makeHTTPRequest c ''GET'' (yangModulesUrl (Ip (nsp s)) name version) NoBody s)
                    = Inl err \<longrightarrow>
               fst (intentTypeYangModules c key s) = Inl (FetchingYangModules err)))"
proof -
  have "fst (intentTypeYangModules c key s) = Inl (FetchingYangModules err)"
    if "splitIntentType key = Inr (name, version)"
      and "fst (makeHTTPRequest c ''GET'' (yangModulesUrl (Ip (nsp s)) name version) NoBody s) = Inl err"
    for name version err
    using that
    by (cases "makeHTTPRequest c ''GET'' (yangModulesUrl (Ip (nsp s)) name version) NoBody s")
       (simp add: intentTypeYangModules_def)
  then show ?thesis
    using search_first_request [of c pn ps s] search_transport_error [of c pn ps s]
      intentTypeYangModules_trace [of key _ _ c s]
    by blast
qed

text \<open>
  C4 as the code has it, on the never-connected server: a search that returns, and a
  search and a module fetch against a platform that cannot be reached.
\<close>

theorem C4_witness:
  "(\<exists>rest. trace (no_session\<lparr>trace := [page_request 0 300 no_session]\<rparr>)
       = trace no_session @ page_request 0 300 no_session # rest)
   \<and> fst (fetch_page unreachable_platform 0 300 no_session) = Inl ''connection refused''
   \<and> intentTypeSearch unreachable_platform 0 300 no_session
       = Some (Inl (FetchingIntentTypes ''connection refused''),
               snd (fetch_page unreachable_platform 0 300 no_session))
   \<and> splitIntentType ''foo_bar_2'' = Inr (''foo_bar'', ''2'')
   \<and> trace (snd (intentTypeYangModules unreachable_platform ''foo_bar_2'' no_session))
       = trace no_session
         @ [HTTPRequest ''GET'' (yangModulesUrl (Ip (nsp no_session)) ''foo_bar'' ''2'') NoBody]
   \<and> fst (intentTypeYangModules unreachable_platform ''foo_bar_2'' no_session)
       = Inl (FetchingYangModules ''connection refused'')"
proof -
  have a: "\<exists>rest. trace (no_session\<lparr>trace := [page_request 0 300 no_session]\<rparr>)
       = trace no_session @ page_request 0 300 no_session # rest"
    using catalog2_run
      C4_transport_is_called_in_every_session_state
        [of "catalog_platform (catalog [1, 2])" 0 300 no_session]
    by blast
  have f: "fst (fetch_page unreachable_platform 0 300 no_session) = Inl ''connection refused''"
    by (simp add: fetch_page_def makeHTTPRequest_def unreachable_platform_def)
  have g: "fst (makeHTTPRequest unreachable_platform ''GET''
                  (yangModulesUrl (Ip (nsp no_session)) ''foo_bar'' ''2'') NoBody no_session)
      = Inl ''connection refused''"
    by (simp add: makeHTTPRequest_def unreachable_platform_def)
  note inst = C4_transport_is_called_in_every_session_state
      [of unreachable_platform 0 300 no_session "''foo_bar_2''"]
  from inst f have b: "intentTypeSearch unreachable_platform 0 300 no_session
       = Some (Inl (FetchingIntentTypes ''connection refused''),
               snd (fetch_page unreachable_platform 0 300 no_session))"
    by blast
  from inst foo_bar_2_split
  have c: "trace (snd (intentTypeYangModules unreachable_platform ''foo_bar_2'' no_session))
       = trace no_session
         @ [HTTPRequest ''GET'' (yangModulesUrl (Ip (nsp no_session)) ''foo_bar'' ''2'') NoBody]"
    by blast
  from inst foo_bar_2_split g
  have d: "fst (intentTypeYangModules unreachable_platform ''foo_bar_2'' no_session)
       = Inl (FetchingYangModules ''connection refused'')"
    by blast
  from a f b foo_bar_2_split c d show ?thesis by blast
qed

text \<open>
  C4 as stated fails. The server has never been connected (\<^verbatim>\<open>nspIsConnected\<close> answers
  that it is not). The search still sends its request and returns the two keys of the
  catalog; the module fetch still sends its GET request and fails with the status of the
  answer, not with a session error.
\<close>

theorem C4_counterexample:
  "nspIsConnected no_session = InternalServerError ''NSP is not connected''
   \<and> intentTypeSearch (catalog_platform (catalog [1, 2])) 0 300 no_session
       = Some (Inr [''foo_bar_1'', ''foo_bar_2''],
               no_session\<lparr>trace := [page_request 0 300 no_session]\<rparr>)
   \<and> intentTypeYangModules (catalog_platform (catalog [1, 2])) ''foo_bar_2'' no_session
       = (Inl (FetchingYangModulesStatus 404),
          no_session\<lparr>trace := [HTTPRequest ''GET'' (yangModulesUrl [] ''foo_bar'' ''2'') NoBody]\<rparr>)"
proof -
  have "nspIsConnected no_session = InternalServerError ''NSP is not connected''"
    by (simp add: nspIsConnected_def no_session_def raiseError_def writeResponse_def)
  moreover have "intentTypeYangModules (catalog_platform (catalog [1, 2])) ''foo_bar_2'' no_session
       = (Inl (FetchingYangModulesStatus 404),
          no_session\<lparr>trace := [HTTPRequest ''GET'' (yangModulesUrl [] ''foo_bar'' ''2'') NoBody]\<rparr>)"
    by (simp add: intentTypeYangModules_def foo_bar_2_split makeHTTPRequest_def
        catalog_platform_def no_session_def)
  ultimately show ?thesis using catalog2_run by blast
qed

end
